theory Spec2Isabelle
  imports Main "HOL-Library.AList"
begin

section \<open>Values received from clients\<close>

text \<open>
  Event arguments arrive as JSON values. An object is the list of its properties in
  the order \<^verbatim>\<open>Object.keys\<close> and \<^verbatim>\<open>JSON.stringify\<close> enumerate them (for keys that
  are not array indices this is the order in which the client wrote them). Numbers are
  the integers; strings are sequences of 8-bit code units.
\<close>

datatype json =
    JNull
  | JBool bool
  | JNum int
  | JStr string
  | JArr "json list"
  | JObj "(string \<times> json) list"

subsection \<open>\<^verbatim>\<open>JSON.stringify\<close>\<close>

definition digit_char :: "nat \<Rightarrow> char" where
  "digit_char d = ''0123456789abcdef'' ! (d mod 16)"

fun show_nat :: "nat \<Rightarrow> string" where
  "show_nat n = (if n < 10 then [digit_char n] else show_nat (n div 10) @ [digit_char (n mod 10)])"

declare show_nat.simps [simp del]

definition show_int :: "int \<Rightarrow> string" where
  "show_int i = (if i < 0 then CHR ''-'' # show_nat (nat (- i)) else show_nat (nat i))"

text \<open>
  The quoting of a string: the quotation mark and the backslash are escaped, the
  control characters have their short form or \<^verbatim>\<open>\u00XX\<close>, every other code unit is
  copied.
\<close>

definition escape_char :: "char \<Rightarrow> string" where
  "escape_char c =
     (let n = (of_char c :: nat) in
      if n = 0x22 then [CHR 0x5C, CHR 0x22]
      else if n = 0x5C then [CHR 0x5C, CHR 0x5C]
      else if n = 8 then [CHR 0x5C, CHR ''b'']
      else if n = 9 then [CHR 0x5C, CHR ''t'']
      else if n = 10 then [CHR 0x5C, CHR ''n'']
      else if n = 12 then [CHR 0x5C, CHR ''f'']
      else if n = 13 then [CHR 0x5C, CHR ''r'']
      else if n < 0x20 then
        [CHR 0x5C, CHR ''u'', CHR ''0'', CHR ''0'', digit_char (n div 16), digit_char (n mod 16)]
      else [c])"

definition quote :: "string \<Rightarrow> string" where
  "quote s = CHR 0x22 # concat (map escape_char s) @ [CHR 0x22]"

fun join_with :: "string \<Rightarrow> string list \<Rightarrow> string" where
  "join_with sep [] = []"
| "join_with sep [x] = x"
| "join_with sep (x # y # ys) = x @ sep @ join_with sep (y # ys)"

fun stringify :: "json \<Rightarrow> string" where
  "stringify JNull = ''null''"
| "stringify (JBool b) = (if b then ''true'' else ''false'')"
| "stringify (JNum i) = show_int i"
| "stringify (JStr s) = quote s"
| "stringify (JArr xs) = ''['' @ join_with '','' (map stringify xs) @ '']''"
| "stringify (JObj kvs) =
     ''{'' @ join_with '','' (map (\<lambda>kv. quote (fst kv) @ '':'' @ stringify (snd kv)) kvs) @ ''}''"

subsection \<open>makeFilterKey\<close>

text \<open>
  \<^verbatim>\<open>if (!filters || Object.keys(filters).length === 0) return 'all';\<close>
  \<^verbatim>\<open>return JSON.stringify(filters);\<close>

  \<open>None\<close> is \<^verbatim>\<open>undefined\<close>. The falsy values are \<^verbatim>\<open>undefined\<close>, \<^verbatim>\<open>null\<close>,
  \<^verbatim>\<open>false\<close>, \<^verbatim>\<open>0\<close> and the empty string. \<^verbatim>\<open>Object.keys\<close> of a boolean or a number
  is empty, of a string or an array it is the list of its indices, of an object the list
  of its own properties.
\<close>

fun falsy :: "json option \<Rightarrow> bool" where
  "falsy None = True"
| "falsy (Some JNull) = True"
| "falsy (Some (JBool b)) = (\<not> b)"
| "falsy (Some (JNum i)) = (i = 0)"
| "falsy (Some (JStr s)) = (s = [])"
| "falsy (Some (JArr xs)) = False"
| "falsy (Some (JObj kvs)) = False"

fun keys_count :: "json \<Rightarrow> nat" where
  "keys_count JNull = 0"
| "keys_count (JBool b) = 0"
| "keys_count (JNum i) = 0"
| "keys_count (JStr s) = length s"
| "keys_count (JArr xs) = length xs"
| "keys_count (JObj kvs) = length kvs"

definition makeFilterKey :: "json option \<Rightarrow> string" where
  "makeFilterKey filters =
     (case filters of
        None \<Rightarrow> ''all''
      | Some v \<Rightarrow> if falsy filters \<or> keys_count v = 0 then ''all'' else stringify v)"

section \<open>Server state\<close>

text \<open>
  A session is the object \<^verbatim>\<open>{ a: socket.id, b: peer }\<close>; its fields are called
  \<open>sess_a\<close> and \<open>sess_b\<close> here. \<^verbatim>\<open>socket.data\<close> holds the two properties the
  handlers write.
\<close>

record session =
  sess_a :: string
  sess_b :: string

record socket_data =
  filterKey :: "string option"
  sessionId :: "string option"

text \<open>
  The three module-level \<^verbatim>\<open>Map\<close>s are association lists in insertion order, written
  with \<^const>\<open>AList.update\<close> (an existing key keeps its place, a new key goes to the end,
  as \<^verbatim>\<open>Map.prototype.set\<close> does). \<open>sockets\<close> is \<^verbatim>\<open>io.sockets.sockets\<close>: the connected
  sockets by id, each with its \<^verbatim>\<open>data\<close>.

  \<open>redisClient\<close> says whether the imported client is non-null. \<open>redisLists\<close> is the
  content of the Redis server's lists by key; an absent key is the empty list.
  \<open>redisFaults\<close> is the environment's choice, for each Redis command still to be
  issued, of whether it throws (an exhausted list means no further fault); a command
  that throws leaves the lists as they were. Key expiry is an event of its own.
\<close>

record server =
  redisClient :: bool
  redisFaults :: "bool list"
  redisLists :: "(string \<times> string list) list"
  inMemoryQueues :: "(string \<times> string list) list"
  activeSessions :: "(string \<times> session) list"
  abuseScores :: "(string \<times> nat) list"
  sockets :: "(string \<times> socket_data) list"

definition init_server :: "bool \<Rightarrow> bool list \<Rightarrow> server" where
  "init_server redis faults =
     \<lparr>redisClient = redis, redisFaults = faults, redisLists = [], inMemoryQueues = [],
      activeSessions = [], abuseScores = [], sockets = []\<rparr>"

text \<open>What the server sends: an event emitted to a socket id, or a forced close.\<close>

datatype message =
    Queued
  | LeftQueue
  | Matched string string
  | SignalMsg string "json option"
  | RelayMsg string "json option"
  | Kicked string
  | PeerLeft

datatype out =
    Emit string message
  | Close string

subsection \<open>Queue store adapter\<close>

text \<open>\<^verbatim>\<open>m.get(k) || []\<close> on a map of arrays.\<close>

definition list_at :: "(string \<times> string list) list \<Rightarrow> string \<Rightarrow> string list" where
  "list_at m k = (case map_of m k of None \<Rightarrow> [] | Some arr \<Rightarrow> arr)"

definition waiting_key :: "string \<Rightarrow> string" where
  "waiting_key fk = ''waiting:'' @ fk"

text \<open>Issuing one Redis command: does it throw, and the state with the fault consumed.\<close>

definition redis_call :: "server \<Rightarrow> bool \<times> server" where
  "redis_call s =
     (case redisFaults s of
        [] \<Rightarrow> (False, s)
      | f # fs \<Rightarrow> (f, s\<lparr>redisFaults := fs\<rparr>))"

text \<open>The in-memory tails of the three adapter functions.\<close>

definition push_memory :: "string \<Rightarrow> string \<Rightarrow> server \<Rightarrow> server" where
  "push_memory fk socketId s =
     s\<lparr>inMemoryQueues :=
         AList.update fk (list_at (inMemoryQueues s) fk @ [socketId]) (inMemoryQueues s)\<rparr>"

text \<open>
  \<^verbatim>\<open>const val = arr.shift() || null\<close>: an empty array gives \<^verbatim>\<open>null\<close>, and so does an
  empty string at its front, which is shifted off all the same.
\<close>

definition pop_memory :: "string \<Rightarrow> server \<Rightarrow> string option \<times> server" where
  "pop_memory fk s =
     (let arr = list_at (inMemoryQueues s) fk;
          val = (case arr of [] \<Rightarrow> None | x # xs \<Rightarrow> if x = [] then None else Some x)
      in (val, s\<lparr>inMemoryQueues := AList.update fk (tl arr) (inMemoryQueues s)\<rparr>))"

definition remove_memory :: "string \<Rightarrow> string \<Rightarrow> server \<Rightarrow> server" where
  "remove_memory fk socketId s =
     s\<lparr>inMemoryQueues :=
         AList.update fk (filter (\<lambda>x. x \<noteq> socketId) (list_at (inMemoryQueues s) fk))
           (inMemoryQueues s)\<rparr>"

text \<open>
  \<^verbatim>\<open>rPush\<close> then \<^verbatim>\<open>expire\<close>; when either throws, the catch falls through to the
  in-memory push (after a failed \<^verbatim>\<open>expire\<close> the id is already in the Redis list).
\<close>

definition pushWaiting :: "string \<Rightarrow> string \<Rightarrow> server \<Rightarrow> server" where
  "pushWaiting fk socketId s =
     (if redisClient s then
        (case redis_call s of
           (True, s1) \<Rightarrow> push_memory fk socketId s1
         | (False, s1) \<Rightarrow>
             (let k = waiting_key fk;
                  s2 = s1\<lparr>redisLists :=
                         AList.update k (list_at (redisLists s1) k @ [socketId]) (redisLists s1)\<rparr>
              in case redis_call s2 of
                   (True, s3) \<Rightarrow> push_memory fk socketId s3
                 | (False, s3) \<Rightarrow> s3))
      else push_memory fk socketId s)"

definition popWaiting :: "string \<Rightarrow> server \<Rightarrow> string option \<times> server" where
  "popWaiting fk s =
     (if redisClient s then
        (case redis_call s of
           (True, s1) \<Rightarrow> pop_memory fk s1
         | (False, s1) \<Rightarrow>
             (let k = waiting_key fk in
              case list_at (redisLists s1) k of
                [] \<Rightarrow> (None, s1)
              | x # xs \<Rightarrow> (Some x, s1\<lparr>redisLists := AList.update k xs (redisLists s1)\<rparr>)))
      else pop_memory fk s)"

definition removeFromQueue :: "string \<Rightarrow> string \<Rightarrow> server \<Rightarrow> server" where
  "removeFromQueue fk socketId s =
     (if redisClient s then
        (case redis_call s of
           (True, s1) \<Rightarrow> remove_memory fk socketId s1
         | (False, s1) \<Rightarrow>
             (let k = waiting_key fk in
              s1\<lparr>redisLists :=
                   AList.update k (filter (\<lambda>x. x \<noteq> socketId) (list_at (redisLists s1) k))
                     (redisLists s1)\<rparr>))
      else remove_memory fk socketId s)"

section \<open>Socket handlers\<close>

text \<open>
  Each handler runs for a socket held in \<open>sockets\<close> and is given here as what it
  does from its first statement to its last when no other handler runs in between: a
  step from state to state, together with what it emits, in order. The two \<^verbatim>\<open>async\<close>
  listeners are cut at their \<^verbatim>\<open>await\<close>s in the section on suspended handlers. A write to \<^verbatim>\<open>socket.data\<close> or
  \<^verbatim>\<open>peerSock.data\<close> is a write to the entry of that socket; \<^verbatim>\<open>if (peerSock)\<close> is the
  case where there is no entry to write.
\<close>

definition connected :: "server \<Rightarrow> string \<Rightarrow> bool" where
  "connected s sock = (map_of (sockets s) sock \<noteq> None)"

definition set_filterKey :: "string \<Rightarrow> string \<Rightarrow> server \<Rightarrow> server" where
  "set_filterKey sock fk s =
     s\<lparr>sockets := AList.map_entry sock (\<lambda>d. d\<lparr>filterKey := Some fk\<rparr>) (sockets s)\<rparr>"

definition set_sessionId :: "string \<Rightarrow> string \<Rightarrow> server \<Rightarrow> server" where
  "set_sessionId sock sid s =
     s\<lparr>sockets := AList.map_entry sock (\<lambda>d. d\<lparr>sessionId := Some sid\<rparr>) (sockets s)\<rparr>"

text \<open>
  \<^verbatim>\<open>peer && peer !== socket.id\<close>: false for \<^verbatim>\<open>null\<close>, for the empty string and for
  the socket's own id.
\<close>

definition usable_peer :: "string \<Rightarrow> string option \<Rightarrow> bool" where
  "usable_peer sock peer = (case peer of None \<Rightarrow> False | Some p \<Rightarrow> p \<noteq> [] \<and> p \<noteq> sock)"

text \<open>\<open>join_queue\<close>: \<open>uuid\<close> is what \<^verbatim>\<open>uuidv4()\<close> returns for this call.\<close>

definition join_queue :: "string \<Rightarrow> json option \<Rightarrow> string \<Rightarrow> server \<Rightarrow> server \<times> out list" where
  "join_queue sock filters uuid s =
     (let fk = makeFilterKey filters;
          s1 = set_filterKey sock fk s;
          (peer, s2) = popWaiting fk s1
      in if usable_peer sock peer then
           (let p = the peer;
                sid = ''sess_'' @ uuid;
                s3 = s2\<lparr>activeSessions :=
                       AList.update sid \<lparr>sess_a = sock, sess_b = p\<rparr> (activeSessions s2)\<rparr>;
                s4 = set_sessionId sock sid s3;
                s5 = set_sessionId p sid s4
            in (s5, [Emit sock (Matched sid p), Emit p (Matched sid sock)]))
         else (pushWaiting fk sock s2, [Emit sock Queued]))"

definition leave_queue :: "string \<Rightarrow> server \<Rightarrow> server \<times> out list" where
  "leave_queue sock s =
     (case map_of (sockets s) sock of
        None \<Rightarrow> (s, [])
      | Some d \<Rightarrow>
          (case filterKey d of
             None \<Rightarrow> (s, [])
           | Some fk \<Rightarrow>
               if fk = [] then (s, [])
               else (removeFromQueue fk sock s, [Emit sock LeftQueue])))"

text \<open>
  \<open>signal\<close> and \<open>relay_msg\<close>: the recipient \<open>to\<close> is a string or absent; \<^verbatim>\<open>!to\<close>
  holds for the absent and for the empty one. The payload is any value or absent.
\<close>

definition signal :: "string \<Rightarrow> string option \<Rightarrow> json option \<Rightarrow> server \<Rightarrow> server \<times> out list" where
  "signal sock to payload s =
     (case to of
        None \<Rightarrow> (s, [])
      | Some t \<Rightarrow> if t = [] then (s, []) else (s, [Emit t (SignalMsg sock payload)]))"

definition relay_msg :: "string \<Rightarrow> string option \<Rightarrow> json option \<Rightarrow> server \<Rightarrow> server \<times> out list" where
  "relay_msg sock to text s =
     (case to of
        None \<Rightarrow> (s, [])
      | Some t \<Rightarrow> if t = [] then (s, []) else (s, [Emit t (RelayMsg sock text)]))"

text \<open>\<^verbatim>\<open>pair.a === socket.id ? pair.b : pair.a\<close>, in \<open>disconnect\<close> and in \<open>report\<close>.\<close>

definition other_of :: "session \<Rightarrow> string \<Rightarrow> string" where
  "other_of pair sock = (if sess_a pair = sock then sess_b pair else sess_a pair)"

definition involves :: "string \<Rightarrow> session \<Rightarrow> bool" where
  "involves sock pair = (sess_a pair = sock \<or> sess_b pair = sock)"

text \<open>
  \<open>disconnect\<close>: the first loop rewrites every in-memory queue, the second walks the
  sessions in insertion order, emitting and deleting as it goes.
\<close>

fun drop_sessions :: "string \<Rightarrow> (string \<times> session) list \<Rightarrow> (string \<times> session) list \<times> out list" where
  "drop_sessions sock [] = ([], [])"
| "drop_sessions sock ((sid, pair) # rest) =
     (let (kept, outs) = drop_sessions sock rest in
      if involves sock pair then (kept, Emit (other_of pair sock) PeerLeft # outs)
      else ((sid, pair) # kept, outs))"

definition disconnect :: "string \<Rightarrow> server \<Rightarrow> server \<times> out list" where
  "disconnect sock s =
     (let queues = map (\<lambda>(key, arr). (key, filter (\<lambda>x. x \<noteq> sock) arr)) (inMemoryQueues s);
          (sessions, outs) = drop_sessions sock (activeSessions s)
      in (s\<lparr>inMemoryQueues := queues, activeSessions := sessions\<rparr>, outs))"

text \<open>
  The transport's part of a disconnection, whether the client went away or the server
  closed the socket: the socket leaves \<^verbatim>\<open>io.sockets.sockets\<close> and its \<open>disconnect\<close>
  listener runs. A forced close takes effect before the next event is handled.
\<close>

definition socket_disconnect :: "string \<Rightarrow> server \<Rightarrow> server \<times> out list" where
  "socket_disconnect sock s = disconnect sock (s\<lparr>sockets := AList.delete sock (sockets s)\<rparr>)"

text \<open>\<^verbatim>\<open>abuseScores.get(other) || 0\<close>.\<close>

definition score :: "server \<Rightarrow> string \<Rightarrow> nat" where
  "score s sock = (case map_of (abuseScores s) sock of None \<Rightarrow> 0 | Some n \<Rightarrow> n)"

text \<open>The write \<^verbatim>\<open>abuseScores.set(other, (abuseScores.get(other) || 0) + 1)\<close> of \<open>report\<close>.\<close>

definition bump :: "string \<Rightarrow> server \<Rightarrow> server" where
  "bump other s = s\<lparr>abuseScores := AList.update other (score s other + 1) (abuseScores s)\<rparr>"

text \<open>
  \<open>report\<close>: \<open>sid\<close> is the \<^verbatim>\<open>sessionId\<close> of the event; when it is absent or
  not a key of the map, \<^verbatim>\<open>activeSessions.get\<close> finds nothing. \<open>reason\<close> is only logged.
\<close>

definition find_session :: "server \<Rightarrow> string option \<Rightarrow> session option" where
  "find_session s sid = (case sid of None \<Rightarrow> None | Some k \<Rightarrow> map_of (activeSessions s) k)"

definition report :: "string \<Rightarrow> string option \<Rightarrow> json option \<Rightarrow> server \<Rightarrow> server \<times> out list" where
  "report sock sid reason s =
     (case find_session s sid of
        None \<Rightarrow> (s, [])
      | Some sess \<Rightarrow>
          (let other = other_of sess sock;
               s1 = bump other s
           in if score s1 other > 3 then
                (if connected s1 other then
                   (let (s2, outs) = socket_disconnect other s1
                    in (s2, Emit other (Kicked ''abuse'') # Close other # outs))
                 else (s1, []))
              else (s1, [])))"

text \<open>The same report event handled \<open>n\<close> times in a row, with everything emitted.\<close>

fun report_times :: "nat \<Rightarrow> string \<Rightarrow> string option \<Rightarrow> json option \<Rightarrow> server \<Rightarrow> server \<times> out list" where
  "report_times 0 sock sid reason s = (s, [])"
| "report_times (Suc n) sock sid reason s =
     (let (s1, outs1) = report sock sid reason s;
          (s2, outs2) = report_times n sock sid reason s1
      in (s2, outs1 @ outs2))"

section \<open>Events\<close>

text \<open>
  The events the transport and the Redis server raise. The argument of \<open>signal\<close>,
  \<open>relay_msg\<close> and \<open>report\<close> is destructured without a default: when the client
  sent none (\<open>None\<close>), the handler throws before its body. Listeners exist only for
  connected sockets, and an exception ends the run.
\<close>

datatype event =
    OnConnection string
  | OnJoinQueue string "json option" string
  | OnLeaveQueue string
  | OnSignal string "(string option \<times> json option) option"
  | OnRelayMsg string "(string option \<times> json option) option"
  | OnReport string "(string option \<times> json option) option"
  | OnDisconnect string
  | RedisExpired string

datatype error = TypeError

fun handle :: "event \<Rightarrow> server \<Rightarrow> error + server \<times> out list" where
  "handle (OnConnection sock) s =
     Inr (s\<lparr>sockets := AList.update sock \<lparr>filterKey = None, sessionId = None\<rparr> (sockets s)\<rparr>, [])"
| "handle (OnJoinQueue sock filters uuid) s =
     (if connected s sock then Inr (join_queue sock filters uuid s) else Inr (s, []))"
| "handle (OnLeaveQueue sock) s =
     (if connected s sock then Inr (leave_queue sock s) else Inr (s, []))"
| "handle (OnSignal sock arg) s =
     (if connected s sock then
        (case arg of None \<Rightarrow> Inl TypeError | Some (to, payload) \<Rightarrow> Inr (signal sock to payload s))
      else Inr (s, []))"
| "handle (OnRelayMsg sock arg) s =
     (if connected s sock then
        (case arg of None \<Rightarrow> Inl TypeError | Some (to, text) \<Rightarrow> Inr (relay_msg sock to text s))
      else Inr (s, []))"
| "handle (OnReport sock arg) s =
     (if connected s sock then
        (case arg of None \<Rightarrow> Inl TypeError | Some (sid, reason) \<Rightarrow> Inr (report sock sid reason s))
      else Inr (s, []))"
| "handle (OnDisconnect sock) s =
     (if connected s sock then Inr (socket_disconnect sock s) else Inr (s, []))"
| "handle (RedisExpired k) s = Inr (s\<lparr>redisLists := AList.delete k (redisLists s)\<rparr>, [])"

text \<open>
  \<open>run\<close> is the schedule in which every handler runs to its end before the next
  event is handled. The \<open>join_queue\<close> and \<open>leave_queue\<close> handlers are \<^verbatim>\<open>async\<close>
  and can be overtaken at each \<^verbatim>\<open>await\<close>; all their schedules are those of \<open>exec\<close>
  below, of which \<open>run\<close> is one.
\<close>

fun run :: "server \<Rightarrow> event list \<Rightarrow> error + server \<times> out list" where
  "run s [] = Inr (s, [])"
| "run s (e # es) =
     (case handle e s of
        Inl err \<Rightarrow> Inl err
      | Inr (s1, outs1) \<Rightarrow>
          (case run s1 es of
             Inl err \<Rightarrow> Inl err
           | Inr (s2, outs2) \<Rightarrow> Inr (s2, outs1 @ outs2)))"

text \<open>The state and the emissions of a run that did not throw.\<close>

definition final :: "error + server \<times> out list \<Rightarrow> server" where
  "final r = fst (projr r)"

definition emitted :: "error + server \<times> out list \<Rightarrow> out list" where
  "emitted r = snd (projr r)"

text \<open>
  Delivery is the transport's: an emission to an id reaches the socket with that id when
  it is connected, and nobody otherwise.
\<close>

definition reaches :: "server \<Rightarrow> out \<Rightarrow> (string \<times> message) list" where
  "reaches s x =
     (case x of
        Emit to m \<Rightarrow> if connected s to then [(to, m)] else []
      | Close sock \<Rightarrow> [])"

section \<open>Suspended handlers\<close>

text \<open>
  An \<^verbatim>\<open>async\<close> function runs up to its next \<^verbatim>\<open>await\<close> and continues in a later
  turn; other handlers run in between. A task is what a suspended \<open>join_queue\<close> or
  \<open>leave_queue\<close> handler still has to do:
  \<^item> \<open>JoinPopFailed\<close>: \<^verbatim>\<open>lPop\<close> has thrown; \<open>popWaiting\<close> will pop from memory;
  \<^item> \<open>JoinGuard\<close>: \<open>popWaiting\<close> has returned \<open>peer\<close>; the handler will test it and
    either create the session or call \<open>pushWaiting\<close>;
  \<^item> \<open>JoinExpire\<close>: \<^verbatim>\<open>rPush\<close> has succeeded; \<open>pushWaiting\<close> will call \<^verbatim>\<open>expire\<close>;
  \<^item> \<open>JoinPushFailed\<close>: \<^verbatim>\<open>rPush\<close> or \<^verbatim>\<open>expire\<close> has thrown; \<open>pushWaiting\<close> will push
    in memory;
  \<^item> \<open>JoinQueued\<close>: \<open>pushWaiting\<close> has returned; the handler will emit \<open>queued\<close>;
  \<^item> \<open>LeaveRemFailed\<close>: \<^verbatim>\<open>lRem\<close> has thrown; \<open>removeFromQueue\<close> will filter in memory;
  \<^item> \<open>LeaveDone\<close>: \<open>removeFromQueue\<close> has returned; the handler will emit
    \<open>left_queue\<close>.

  A Redis command acts on the lists when it is issued (commands of one connection are
  served in the order sent) and its outcome reaches the handler at the next turn. The
  in-memory functions have no \<^verbatim>\<open>await\<close> on their path and act at once.
\<close>

datatype task =
    JoinPopFailed string string string
  | JoinGuard string string string "string option"
  | JoinExpire string string
  | JoinPushFailed string string
  | JoinQueued string
  | LeaveRemFailed string string
  | LeaveDone string

text \<open>The handler of \<open>join_queue\<close> up to \<^verbatim>\<open>await popWaiting(fk)\<close>.\<close>

definition join_start :: "string \<Rightarrow> json option \<Rightarrow> string \<Rightarrow> server \<Rightarrow> server \<times> task" where
  "join_start sock filters uuid s =
     (let fk = makeFilterKey filters;
          s1 = set_filterKey sock fk s
      in if redisClient s1 then
           (case redis_call s1 of
              (True, s2) \<Rightarrow> (s2, JoinPopFailed sock fk uuid)
            | (False, s2) \<Rightarrow>
                (let k = waiting_key fk in
                 case list_at (redisLists s2) k of
                   [] \<Rightarrow> (s2, JoinGuard sock fk uuid None)
                 | x # xs \<Rightarrow>
                     (s2\<lparr>redisLists := AList.update k xs (redisLists s2)\<rparr>,
                      JoinGuard sock fk uuid (Some x))))
         else (let (val, s2) = pop_memory fk s1 in (s2, JoinGuard sock fk uuid val)))"

text \<open>
  The handler of \<open>leave_queue\<close> up to \<^verbatim>\<open>await removeFromQueue(fk, socket.id)\<close>;
  there is no task when it returns at \<^verbatim>\<open>if (!fk) return;\<close>.
\<close>

definition leave_start :: "string \<Rightarrow> server \<Rightarrow> server \<times> task option" where
  "leave_start sock s =
     (case map_of (sockets s) sock of
        None \<Rightarrow> (s, None)
      | Some d \<Rightarrow>
          (case filterKey d of
             None \<Rightarrow> (s, None)
           | Some fk \<Rightarrow>
               if fk = [] then (s, None)
               else if redisClient s then
                 (case redis_call s of
                    (True, s1) \<Rightarrow> (s1, Some (LeaveRemFailed sock fk))
                  | (False, s1) \<Rightarrow>
                      (let k = waiting_key fk in
                       (s1\<lparr>redisLists :=
                             AList.update k (filter (\<lambda>x. x \<noteq> sock) (list_at (redisLists s1) k))
                               (redisLists s1)\<rparr>,
                        Some (LeaveDone sock))))
               else (remove_memory fk sock s, Some (LeaveDone sock))))"

text \<open>
  One turn of a task: the new state, what is left of the task, and what is emitted.
\<close>

fun resume :: "task \<Rightarrow> server \<Rightarrow> server \<times> task option \<times> out list" where
  "resume (JoinPopFailed sock fk uuid) s =
     (let (val, s1) = pop_memory fk s in (s1, Some (JoinGuard sock fk uuid val), []))"
| "resume (JoinGuard sock fk uuid peer) s =
     (if usable_peer sock peer then
        (let p = the peer;
             sid = ''sess_'' @ uuid;
             s3 = s\<lparr>activeSessions :=
                    AList.update sid \<lparr>sess_a = sock, sess_b = p\<rparr> (activeSessions s)\<rparr>;
             s4 = set_sessionId sock sid s3;
             s5 = set_sessionId p sid s4
         in (s5, None, [Emit sock (Matched sid p), Emit p (Matched sid sock)]))
      else if redisClient s then
        (case redis_call s of
           (True, s1) \<Rightarrow> (s1, Some (JoinPushFailed sock fk), [])
         | (False, s1) \<Rightarrow>
             (let k = waiting_key fk in
              (s1\<lparr>redisLists :=
                    AList.update k (list_at (redisLists s1) k @ [sock]) (redisLists s1)\<rparr>,
               Some (JoinExpire sock fk), [])))
      else (push_memory fk sock s, Some (JoinQueued sock), []))"
| "resume (JoinExpire sock fk) s =
     (case redis_call s of
        (True, s1) \<Rightarrow> (s1, Some (JoinPushFailed sock fk), [])
      | (False, s1) \<Rightarrow> (s1, Some (JoinQueued sock), []))"
| "resume (JoinPushFailed sock fk) s = (push_memory fk sock s, Some (JoinQueued sock), [])"
| "resume (JoinQueued sock) s = (s, None, [Emit sock Queued])"
| "resume (LeaveRemFailed sock fk) s = (remove_memory fk sock s, Some (LeaveDone sock), [])"
| "resume (LeaveDone sock) s = (s, None, [Emit sock LeftQueue])"

text \<open>
  The server with its suspended handlers. A tick delivers an event to its listener or
  gives the task at a position its next turn; the order of the ticks is the scheduler's.
  The listeners other than \<open>join_queue\<close> and \<open>leave_queue\<close> have no \<^verbatim>\<open>await\<close> and
  run as in \<open>handle\<close>.
\<close>

record process =
  core :: server
  tasks :: "task list"

datatype tick =
    Deliver event
  | Resume nat

definition replace_task :: "nat \<Rightarrow> task option \<Rightarrow> task list \<Rightarrow> task list" where
  "replace_task i next ts =
     take i ts @ (case next of None \<Rightarrow> [] | Some t \<Rightarrow> [t]) @ drop (Suc i) ts"

fun step :: "tick \<Rightarrow> process \<Rightarrow> error + process \<times> out list" where
  "step (Deliver (OnJoinQueue sock filters uuid)) p =
     (if connected (core p) sock then
        (let (s1, t) = join_start sock filters uuid (core p)
         in Inr (\<lparr>core = s1, tasks = tasks p @ [t]\<rparr>, []))
      else Inr (p, []))"
| "step (Deliver (OnLeaveQueue sock)) p =
     (if connected (core p) sock then
        (let (s1, next) = leave_start sock (core p)
         in Inr (\<lparr>core = s1, tasks = tasks p @ (case next of None \<Rightarrow> [] | Some t \<Rightarrow> [t])\<rparr>, []))
      else Inr (p, []))"
| "step (Deliver e) p =
     (case handle e (core p) of
        Inl err \<Rightarrow> Inl err
      | Inr (s1, outs) \<Rightarrow> Inr (\<lparr>core = s1, tasks = tasks p\<rparr>, outs))"
| "step (Resume i) p =
     (if i < length (tasks p) then
        (let (s1, next, outs) = resume (tasks p ! i) (core p)
         in Inr (\<lparr>core = s1, tasks = replace_task i next (tasks p)\<rparr>, outs))
      else Inr (p, []))"

fun exec :: "process \<Rightarrow> tick list \<Rightarrow> error + process \<times> out list" where
  "exec p [] = Inr (p, [])"
| "exec p (t # ts) =
     (case step t p of
        Inl err \<Rightarrow> Inl err
      | Inr (p1, outs1) \<Rightarrow>
          (case exec p1 ts of
             Inl err \<Rightarrow> Inl err
           | Inr (p2, outs2) \<Rightarrow> Inr (p2, outs1 @ outs2)))"

definition boot :: "bool \<Rightarrow> bool list \<Rightarrow> process" where
  "boot redis faults = \<lparr>core = init_server redis faults, tasks = []\<rparr>"

text \<open>The server state and the emissions of an execution that did not throw.\<close>

definition outcome :: "error + process \<times> out list \<Rightarrow> server" where
  "outcome r = core (fst (projr r))"

definition sent :: "error + process \<times> out list \<Rightarrow> out list" where
  "sent r = snd (projr r)"

text \<open>
  The schedule in which no handler is overtaken: each event is followed by the turns of
  its own handler (at most five: \<open>JoinPopFailed\<close>, \<open>JoinGuard\<close>, \<open>JoinExpire\<close>,
  \<open>JoinPushFailed\<close>, \<open>JoinQueued\<close>) before the next is delivered. \<open>settled\<close> is
  a result of \<open>run\<close> as a result of \<open>exec\<close>, with no handler suspended.
\<close>

definition back_to_back :: "event list \<Rightarrow> tick list" where
  "back_to_back es = concat (map (\<lambda>e. Deliver e # replicate 5 (Resume 0)) es)"

definition settled :: "error + server \<times> out list \<Rightarrow> error + process \<times> out list" where
  "settled r = map_sum id (\<lambda>(s, outs). (\<lparr>core = s, tasks = []\<rparr>, outs)) r"

section \<open>Occupancy\<close>

text \<open>
  How often an id occurs in a store of waiting lists, over all its keys: in the
  in-memory queues (\<open>queue_count\<close>) and in the Redis lists (\<open>redis_count\<close>). In
  how many sessions it fills a slot (\<open>session_count\<close>).
\<close>

definition occ :: "(string \<times> string list) list \<Rightarrow> string \<Rightarrow> nat" where
  "occ al x = sum_list (map (\<lambda>(key, arr). count_list arr x) al)"

definition queue_count :: "server \<Rightarrow> string \<Rightarrow> nat" where
  "queue_count s x = occ (inMemoryQueues s) x"

definition redis_count :: "server \<Rightarrow> string \<Rightarrow> nat" where
  "redis_count s x = occ (redisLists s) x"

definition session_count :: "server \<Rightarrow> string \<Rightarrow> nat" where
  "session_count s x = length (filter (\<lambda>(sid, pair). involves x pair) (activeSessions s))"

text \<open>
  What a suspended handler holds: the requester it has still to push or to match, and
  the candidate it has popped and will put into a session. \<open>stored\<close> counts the
  occurrences in the waiting lists and the sessions, and \<open>occupancy\<close> adds to them
  what the suspended handlers hold.
\<close>

fun held :: "task \<Rightarrow> string \<Rightarrow> nat" where
  "held (JoinPopFailed sock fk uuid) x = (if x = sock then 1 else 0)"
| "held (JoinGuard sock fk uuid peer) x =
     (if x = sock then 1 else 0) + (if usable_peer sock peer \<and> peer = Some x then 1 else 0)"
| "held (JoinExpire sock fk) x = 0"
| "held (JoinPushFailed sock fk) x = (if x = sock then 1 else 0)"
| "held (JoinQueued sock) x = 0"
| "held (LeaveRemFailed sock fk) x = 0"
| "held (LeaveDone sock) x = 0"

definition held_count :: "task list \<Rightarrow> string \<Rightarrow> nat" where
  "held_count ts x = sum_list (map (\<lambda>t. held t x) ts)"

text \<open>What the task left by a turn holds, when one is left.\<close>

definition held_next :: "task option \<Rightarrow> string \<Rightarrow> nat" where
  "held_next next x = (case next of None \<Rightarrow> 0 | Some t \<Rightarrow> held t x)"

definition stored :: "server \<Rightarrow> string \<Rightarrow> nat" where
  "stored s x = redis_count s x + queue_count s x + session_count s x"

definition occupancy :: "process \<Rightarrow> string \<Rightarrow> nat" where
  "occupancy p x = stored (core p) x + held_count (tasks p) x"

text \<open>
  The two conditions on a tick: a \<open>join_queue\<close> is delivered for a socket that is
  at that moment in no waiting list, in no session and held by no suspended handler; and
  the \<^verbatim>\<open>expire\<close> that a task is about to issue does not throw.
\<close>

fun allowed :: "process \<Rightarrow> tick \<Rightarrow> bool" where
  "allowed p (Deliver (OnJoinQueue sock filters uuid)) =
     (if connected (core p) sock then occupancy p sock = 0 else True)"
| "allowed p (Deliver e) = True"
| "allowed p (Resume i) =
     (if i < length (tasks p) then
        (case tasks p ! i of JoinExpire sock fk \<Rightarrow> \<not> fst (redis_call (core p)) | _ \<Rightarrow> True)
      else True)"

fun well_paced :: "process \<Rightarrow> tick list \<Rightarrow> bool" where
  "well_paced p [] = True"
| "well_paced p (t # ts) =
     (allowed p t \<and>
      (case step t p of Inl err \<Rightarrow> True | Inr (p1, outs) \<Rightarrow> well_paced p1 ts))"

text \<open>Every session has two different ids in its slots.\<close>

definition distinct_slots :: "server \<Rightarrow> bool" where
  "distinct_slots s = list_all (\<lambda>(sid, pair). sess_a pair \<noteq> sess_b pair) (activeSessions s)"

section \<open>Example runs\<close>

text \<open>
  Two clients \<open>X\<close> and \<open>Y\<close> connect to a server without Redis and join with no
  filters, in that order; \<open>matched_state\<close> is the state this leads to.
\<close>

definition matched_events :: "event list" where
  "matched_events =
     [OnConnection ''X'', OnConnection ''Y'', OnJoinQueue ''X'' None ''u1'',
      OnJoinQueue ''Y'' None ''u2'']"

definition matched_state :: server where
  "matched_state =
     \<lparr>redisClient = False, redisFaults = [], redisLists = [],
      inMemoryQueues = [(''all'', [])],
      activeSessions = [(''sess_u2'', \<lparr>sess_a = ''Y'', sess_b = ''X''\<rparr>)],
      abuseScores = [],
      sockets = [(''X'', \<lparr>filterKey = Some ''all'', sessionId = Some ''sess_u2''\<rparr>),
                 (''Y'', \<lparr>filterKey = Some ''all'', sessionId = Some ''sess_u2''\<rparr>)]\<rparr>"

text \<open>The same state with a third client \<open>Z\<close> connected, which has not joined.\<close>

definition watched_state :: server where
  "watched_state =
     matched_state\<lparr>sockets := sockets matched_state @ [(''Z'', \<lparr>filterKey = None, sessionId = None\<rparr>)]\<rparr>"

text \<open>\<open>X\<close> reports the session once, then \<open>Y\<close> disconnects.\<close>

definition reported_events :: "event list" where
  "reported_events =
     matched_events @ [OnReport ''X'' (Some (Some ''sess_u2'', None)), OnDisconnect ''Y'']"

text \<open>
  \<open>X\<close> alone has connected and joined with no filters: without Redis
  (\<open>queued_state\<close>), and with a Redis server that never fails (\<open>redis_queued_state\<close>).
  In \<open>redis_queued_events\<close> it then disconnects.
\<close>

definition queued_state :: server where
  "queued_state =
     \<lparr>redisClient = False, redisFaults = [], redisLists = [],
      inMemoryQueues = [(''all'', [''X''])], activeSessions = [], abuseScores = [],
      sockets = [(''X'', \<lparr>filterKey = Some ''all'', sessionId = None\<rparr>)]\<rparr>"

definition redis_queued_state :: server where
  "redis_queued_state =
     \<lparr>redisClient = True, redisFaults = [], redisLists = [(''waiting:all'', [''X''])],
      inMemoryQueues = [], activeSessions = [], abuseScores = [],
      sockets = [(''X'', \<lparr>filterKey = Some ''all'', sessionId = None\<rparr>)]\<rparr>"

definition redis_queued_events :: "event list" where
  "redis_queued_events = [OnConnection ''X'', OnJoinQueue ''X'' None ''u1'', OnDisconnect ''X'']"

text \<open>
  After the match, \<open>X\<close> joins once more with no filters (\<open>requeued_state\<close>). In
  \<open>two_queues_events\<close> a lone \<open>X\<close> joins twice, with different filters.
\<close>

definition requeued_state :: server where
  "requeued_state = matched_state\<lparr>inMemoryQueues := [(''all'', [''X''])]\<rparr>"

definition two_queues_events :: "event list" where
  "two_queues_events =
     [OnConnection ''X'', OnJoinQueue ''X'' None ''u1'',
      OnJoinQueue ''X'' (Some (JObj [(''lang'', JStr ''en'')])) ''u2'']"

text \<open>
  With Redis: \<open>X\<close> is queued and disconnects, then \<open>Y\<close> joins and reports its
  session four times.
\<close>

definition stale_peer_events :: "event list" where
  "stale_peer_events =
     [OnConnection ''X'', OnJoinQueue ''X'' None ''u1'', OnDisconnect ''X'',
      OnConnection ''Y'', OnJoinQueue ''Y'' None ''u2'',
      OnReport ''Y'' (Some (Some ''sess_u2'', None)), OnReport ''Y'' (Some (Some ''sess_u2'', None)),
      OnReport ''Y'' (Some (Some ''sess_u2'', None)), OnReport ''Y'' (Some (Some ''sess_u2'', None))]"

text \<open>
  Schedules with suspended handlers. In \<open>overlapping_ticks\<close> (no Redis) a lone \<open>X\<close>
  joins twice, the second \<open>join_queue\<close> being delivered while the handler of the first is
  suspended at \<^verbatim>\<open>await popWaiting(fk)\<close>; then \<open>Y\<close> connects and joins. In
  \<open>popped_ticks\<close> (Redis) \<open>Y\<close> is queued, the handler of \<open>X\<close> pops it and is
  suspended, and \<open>Y\<close> joins again before that handler goes on.
\<close>

definition overlapping_ticks :: "tick list" where
  "overlapping_ticks =
     [Deliver (OnConnection ''X''), Deliver (OnJoinQueue ''X'' None ''u1''),
      Deliver (OnJoinQueue ''X'' None ''u2''), Resume 0, Resume 1, Resume 0, Resume 0,
      Deliver (OnConnection ''Y''), Deliver (OnJoinQueue ''Y'' None ''u3''), Resume 0]"

definition popped_ticks :: "tick list" where
  "popped_ticks =
     [Deliver (OnConnection ''X''), Deliver (OnConnection ''Y''),
      Deliver (OnJoinQueue ''Y'' None ''u1''), Resume 0, Resume 0, Resume 0,
      Deliver (OnJoinQueue ''X'' None ''u2''), Deliver (OnJoinQueue ''Y'' None ''u3''),
      Resume 0, Resume 0, Resume 0, Resume 0]"

text \<open>
  In \<open>paced_ticks\<close> (Redis, whose first command throws) the handlers of \<open>X\<close> and
  \<open>Y\<close> take their turns alternately and both are queued; then \<open>Z\<close> joins and is
  matched with \<open>Y\<close>. \<open>paced_state\<close> is the state this leads to.
\<close>

definition paced_ticks :: "tick list" where
  "paced_ticks =
     [Deliver (OnConnection ''X''), Deliver (OnConnection ''Y''),
      Deliver (OnJoinQueue ''X'' None ''u1''), Deliver (OnJoinQueue ''Y'' None ''u2''),
      Resume 0, Resume 1, Resume 0, Resume 1, Resume 0, Resume 0, Resume 0,
      Deliver (OnConnection ''Z''), Deliver (OnJoinQueue ''Z'' None ''u3''), Resume 0]"

definition paced_state :: server where
  "paced_state =
     \<lparr>redisClient = True, redisFaults = [], redisLists = [(''waiting:all'', [''X''])],
      inMemoryQueues = [(''all'', [])],
      activeSessions = [(''sess_u3'', \<lparr>sess_a = ''Z'', sess_b = ''Y''\<rparr>)],
      abuseScores = [],
      sockets = [(''X'', \<lparr>filterKey = Some ''all'', sessionId = None\<rparr>),
                 (''Y'', \<lparr>filterKey = Some ''all'', sessionId = Some ''sess_u3''\<rparr>),
                 (''Z'', \<lparr>filterKey = Some ''all'', sessionId = Some ''sess_u3''\<rparr>)]\<rparr>"

text \<open>
  \<open>X\<close> and \<open>Y\<close> join one after the other; run on a Redis server whose third command,
  the \<^verbatim>\<open>expire\<close> of the first \<open>pushWaiting\<close>, throws.
\<close>

definition expire_fault_events :: "event list" where
  "expire_fault_events =
     [OnConnection ''X'', OnConnection ''Y'', OnJoinQueue ''X'' None ''u1'',
      OnJoinQueue ''Y'' None ''u2'']"

text \<open>
  With Redis: \<open>faulty_queued_state\<close> is where a lone \<open>X\<close> stands after a
  \<open>join_queue\<close> whose \<^verbatim>\<open>expire\<close> threw, in the Redis list and in the in-memory queue,
  with a Redis server whose next command throws. In \<open>unserved_leave_events\<close> \<open>X\<close>
  joins and leaves; run on a server whose fourth command, the \<^verbatim>\<open>lRem\<close>, throws.
\<close>

definition faulty_queued_state :: server where
  "faulty_queued_state =
     \<lparr>redisClient = True, redisFaults = [True], redisLists = [(''waiting:all'', [''X''])],
      inMemoryQueues = [(''all'', [''X''])], activeSessions = [], abuseScores = [],
      sockets = [(''X'', \<lparr>filterKey = Some ''all'', sessionId = None\<rparr>)]\<rparr>"


section \<open>Properties\<close>

lemmas adapter_defs = list_at_def redis_call_def push_memory_def pop_memory_def
  remove_memory_def pushWaiting_def popWaiting_def removeFromQueue_def waiting_key_def

lemmas handler_defs = connected_def set_filterKey_def set_sessionId_def usable_peer_def join_queue_def
  leave_queue_def signal_def relay_msg_def disconnect_def socket_disconnect_def score_def
  find_session_def bump_def report_def other_of_def involves_def

lemmas run_defs = init_server_def makeFilterKey_def adapter_defs handler_defs Let_def

lemmas exec_defs = boot_def join_start_def leave_start_def replace_task_def outcome_def sent_def
lemmas count_defs = occupancy_def stored_def redis_count_def queue_count_def session_count_def
  held_count_def occ_def

lemma usable_peer_iff:
  "usable_peer sock peer \<longleftrightarrow> (\<exists>p. peer = Some p \<and> p \<noteq> [] \<and> p \<noteq> sock)"
  by (cases peer) (simp_all add: usable_peer_def)


lemma queued_state_reached:
  "run (init_server False []) [OnConnection ''X'', OnJoinQueue ''X'' None ''u1''] =
     Inr (queued_state, [Emit ''X'' Queued])"
  by (simp add: queued_state_def run_defs)

lemma redis_queued_state_reached:
  "run (init_server True []) [OnConnection ''X'', OnJoinQueue ''X'' None ''u1''] =
     Inr (redis_queued_state, [Emit ''X'' Queued])"
  by (simp add: redis_queued_state_def run_defs)

subsection \<open>The disconnect listener\<close>

lemma drop_sessions_filter:
  "drop_sessions sock al =
     (filter (\<lambda>(k, p). \<not> involves sock p) al,
      map (\<lambda>(k, p). Emit (other_of p sock) PeerLeft) (filter (\<lambda>(k, p). involves sock p) al))"
  by (induction al) (auto split: prod.splits)

lemma abuseScores_disconnect: "abuseScores (fst (disconnect sock s)) = abuseScores s"
  by (simp add: disconnect_def split: prod.splits)

lemma abuseScores_socket_disconnect:
  "abuseScores (fst (socket_disconnect sock s)) = abuseScores s"
  by (simp add: socket_disconnect_def abuseScores_disconnect)

lemma score_socket_disconnect: "score (fst (socket_disconnect t s)) x = score s x"
  by (simp add: score_def abuseScores_socket_disconnect)

text \<open>
  C3, as amended: handling a participant's disconnect leaves the abuse-score map as it
  was; every entry, the participant's own included, is still there afterwards. This holds
  for the listener alone and for the whole disconnection.
\<close>

theorem disconnect_keeps_scores:
  "abuseScores (fst (disconnect sock s)) = abuseScores s \<and>
   abuseScores (fst (socket_disconnect sock s)) = abuseScores s \<and>
   score (fst (socket_disconnect sock s)) sock = score s sock"
  by (simp add: abuseScores_disconnect abuseScores_socket_disconnect score_socket_disconnect)

theorem disconnect_keeps_scores_witness:
  "abuseScores (fst (disconnect ''Y'' matched_state)) = [] \<and>
   abuseScores (fst (socket_disconnect ''Y'' matched_state)) = [] \<and>
   score (fst (socket_disconnect ''Y'' matched_state)) ''Y'' = 0"
  using disconnect_keeps_scores [of "''Y''" matched_state]
  by (simp add: matched_state_def score_def)

text \<open>
  C3 as stated fails: after \<open>X\<close> has reported \<open>Y\<close> once and \<open>Y\<close> has disconnected,
  the entry of \<open>Y\<close> is still in the map, with the score 1.
\<close>

theorem score_survives_disconnect:
  "map_of (abuseScores (final (run (init_server False []) reported_events))) ''Y'' = Some 1"
  by (simp add: reported_events_def matched_events_def final_def run_defs)

subsection \<open>Reports\<close>

lemma score_bump: "score (bump t s) x = (if x = t then score s t + 1 else score s x)"
  by (simp add: bump_def score_def update_conv')

lemma report_found:
  "find_session s sid = Some p \<Longrightarrow>
     report sock sid reason s =
       (if 3 \<le> score s (other_of p sock) \<and> connected s (other_of p sock) then
          (fst (socket_disconnect (other_of p sock) (bump (other_of p sock) s)),
           Emit (other_of p sock) (Kicked ''abuse'') # Close (other_of p sock) #
             snd (socket_disconnect (other_of p sock) (bump (other_of p sock) s)))
        else (bump (other_of p sock) s, []))"
  by (auto simp: report_def Let_def bump_def score_def update_conv' connected_def split: prod.splits)

lemma involves_other_of: "involves (other_of p sock) p"
  by (simp add: involves_def other_of_def)

lemma map_of_filter_distinct:
  "distinct (map fst al) \<Longrightarrow> map_of al k = Some v \<Longrightarrow> \<not> P (k, v) \<Longrightarrow> map_of (filter P al) k = None"
  by (induction al) (auto simp: map_of_eq_None_iff image_iff)

lemma sessions_socket_disconnect:
  "activeSessions (fst (socket_disconnect t s)) = filter (\<lambda>(k, p). \<not> involves t p) (activeSessions s)"
  by (simp add: socket_disconnect_def disconnect_def drop_sessions_filter)

lemma outs_socket_disconnect:
  "snd (socket_disconnect t s) =
     map (\<lambda>(k, p). Emit (other_of p t) PeerLeft) (filter (\<lambda>(k, p). involves t p) (activeSessions s))"
  by (simp add: socket_disconnect_def disconnect_def drop_sessions_filter)

lemma sockets_socket_disconnect:
  "sockets (fst (socket_disconnect t s)) = AList.delete t (sockets s)"
  by (simp add: socket_disconnect_def disconnect_def split: prod.splits)

lemma not_connected_after: "\<not> connected (fst (socket_disconnect t s)) t"
  by (simp add: connected_def sockets_socket_disconnect delete_conv')

lemma session_gone_after:
  "distinct (map fst (activeSessions s)) \<Longrightarrow> map_of (activeSessions s) sid = Some p \<Longrightarrow>
     involves t p \<Longrightarrow> find_session (fst (socket_disconnect t s)) (Some sid) = None"
  by (simp add: find_session_def sessions_socket_disconnect map_of_filter_distinct)

lemma no_kick_in_peer_left:
  "Emit t (Kicked r) \<notin> set (snd (socket_disconnect u s)) \<and> Close t \<notin> set (snd (socket_disconnect u s))"
  by (auto simp: outs_socket_disconnect)

lemma report_none: "find_session s sid = None \<Longrightarrow> report sock sid reason s = (s, [])"
  by (simp add: report_def)

lemma report_times_gone:
  "find_session s sid = None \<Longrightarrow> report_times n sock sid reason s = (s, [])"
  by (induction n) (simp_all add: report_none)

lemma bump_fields:
  "activeSessions (bump t s) = activeSessions s" "sockets (bump t s) = sockets s"
  by (simp_all add: bump_def)

lemma find_session_bump: "find_session (bump t s) sid = find_session s sid"
  by (cases sid) (simp_all add: find_session_def bump_fields)

lemma connected_bump: "connected (bump t s) x = connected s x"
  by (simp add: connected_def bump_fields)

lemma report_times_kicks:
  assumes "find_session s (Some sid) = Some p" and "connected s (other_of p sock)"
    and "distinct (map fst (activeSessions s))"
  shows "count_list (snd (report_times n sock (Some sid) reason s)) (Emit (other_of p sock) (Kicked ''abuse''))
           = (if 0 < n \<and> 4 \<le> n + score s (other_of p sock) then 1 else 0)
       \<and> count_list (snd (report_times n sock (Some sid) reason s)) (Close (other_of p sock))
           = (if 0 < n \<and> 4 \<le> n + score s (other_of p sock) then 1 else 0)"
  using assms
proof (induction n arbitrary: s)
  case 0
  then show ?case by simp
next
  case (Suc n)
  let ?t = "other_of p sock"
  show ?case
  proof (cases "3 \<le> score s ?t")
    case True
    let ?s' = "fst (socket_disconnect ?t (bump ?t s))"
    have r: "report sock (Some sid) reason s =
       (?s', Emit ?t (Kicked ''abuse'') # Close ?t # snd (socket_disconnect ?t (bump ?t s)))"
      using Suc.prems True by (simp add: report_found)
    have "map_of (activeSessions (bump ?t s)) sid = Some p"
      using Suc.prems(1) by (simp add: find_session_def bump_fields)
    then have gone: "find_session ?s' (Some sid) = None"
      using Suc.prems(3) session_gone_after [of "bump ?t s" sid p ?t]
      by (simp add: bump_fields involves_other_of)
    show ?thesis
      using True by (simp add: r report_times_gone [OF gone] no_kick_in_peer_left)
  next
    case False
    have r: "report sock (Some sid) reason s = (bump ?t s, [])"
      using Suc.prems False by (simp add: report_found)
    have ih: "count_list (snd (report_times n sock (Some sid) reason (bump ?t s))) (Emit ?t (Kicked ''abuse''))
           = (if 0 < n \<and> 4 \<le> n + score (bump ?t s) ?t then 1 else 0)
       \<and> count_list (snd (report_times n sock (Some sid) reason (bump ?t s))) (Close ?t)
           = (if 0 < n \<and> 4 \<le> n + score (bump ?t s) ?t then 1 else 0)"
      using Suc.prems by (intro Suc.IH) (simp_all add: find_session_bump connected_bump bump_fields)
    show ?thesis
      using False ih by (auto simp: r score_bump split: prod.splits)
  qed
qed

lemma score_after_report:
  "find_session s sid = Some p \<Longrightarrow>
     score (fst (report sock sid reason s)) x =
       (if x = other_of p sock then score s x + 1 else score s x)"
  by (simp add: report_found score_socket_disconnect score_bump)

lemma kicked_iff:
  "find_session s sid = Some p \<Longrightarrow>
     (Emit (other_of p sock) (Kicked ''abuse'') \<in> set (snd (report sock sid reason s))) =
       (3 \<le> score s (other_of p sock) \<and> connected s (other_of p sock))"
  by (simp add: report_found)

lemma closed_iff:
  "find_session s sid = Some p \<Longrightarrow>
     (Close (other_of p sock) \<in> set (snd (report sock sid reason s))) =
       (3 \<le> score s (other_of p sock) \<and> connected s (other_of p sock))"
  by (simp add: report_found)

text \<open>
  C7: a report whose session id resolves to no session changes nothing and emits
  nothing, and the event is handled without an exception.
\<close>

theorem report_unknown_session:
  "find_session s sid = None \<Longrightarrow>
     report sock sid reason s = (s, []) \<and>
     handle (OnReport sock (Some (sid, reason))) s = Inr (s, [])"
  by (simp add: report_def)

theorem report_unknown_session_witness:
  "find_session matched_state (Some ''sess_u1'') = None \<and>
   report ''X'' (Some ''sess_u1'') None matched_state = (matched_state, []) \<and>
   handle (OnReport ''X'' (Some (Some ''sess_u1'', None))) matched_state =
     Inr (matched_state, [])"
proof -
  have h: "find_session matched_state (Some ''sess_u1'') = None"
    by (simp add: find_session_def matched_state_def)
  from report_unknown_session [OF h, of "''X''" None] h show ?thesis by simp
qed

lemma report_times_unconnected:
  "find_session s sid = Some p \<Longrightarrow> \<not> connected s (other_of p sock) \<Longrightarrow>
     snd (report_times n sock sid reason s) = []"
proof (induction n arbitrary: s)
  case 0
  then show ?case by simp
next
  case (Suc n)
  let ?t = "other_of p sock"
  have r: "report sock sid reason s = (bump ?t s, [])"
    using Suc.prems by (simp add: report_found)
  have "snd (report_times n sock sid reason (bump ?t s)) = []"
    using Suc.prems by (intro Suc.IH) (simp_all add: find_session_bump connected_bump)
  then show ?case by (simp add: r split: prod.splits)
qed

text \<open>
  C2, as amended: a report on an existing session raises the score of its target \<open>t\<close>
  (the slot the handler picks) by one and no other score. \<open>t\<close> is sent \<open>kicked\<close>
  and force-closed exactly when the new score exceeds 3 and \<open>t\<close> is still connected.
  Once that has happened \<open>t\<close> is no longer connected, the session is gone and any
  further report on it changes and emits nothing. Counted over \<open>n\<close> reports in a row
  against a connected target, the kick and the close occur once when the score passes 3
  and never otherwise; from a score of 0 that is on the fourth report. Against a target
  that is not connected nothing is ever emitted. The keys of the session map are taken
  to be distinct, as those of a \<^verbatim>\<open>Map\<close> are.
\<close>

theorem report_ejects_on_fourth:
  assumes found: "find_session s (Some sid) = Some p"
    and t: "t = other_of p sock"
    and keys: "distinct (map fst (activeSessions s))"
  shows
    "score (fst (report sock (Some sid) reason s)) x = (if x = t then score s t + 1 else score s x) \<and>
     (Emit t (Kicked ''abuse'') \<in> set (snd (report sock (Some sid) reason s))) =
       (3 < score s t + 1 \<and> connected s t) \<and>
     (Close t \<in> set (snd (report sock (Some sid) reason s))) =
       (3 < score s t + 1 \<and> connected s t) \<and>
     (if 3 < score s t + 1 \<and> connected s t then
        \<not> connected (fst (report sock (Some sid) reason s)) t \<and>
        find_session (fst (report sock (Some sid) reason s)) (Some sid) = None \<and>
        report sock' (Some sid) reason' (fst (report sock (Some sid) reason s)) =
          (fst (report sock (Some sid) reason s), [])
      else report sock (Some sid) reason s = (bump t s, [])) \<and>
     (if connected s t then
        count_list (snd (report_times n sock (Some sid) reason s)) (Emit t (Kicked ''abuse'')) =
          (if 0 < n \<and> 4 \<le> n + score s t then 1 else 0) \<and>
        count_list (snd (report_times n sock (Some sid) reason s)) (Close t) =
          (if 0 < n \<and> 4 \<le> n + score s t then 1 else 0)
      else snd (report_times n sock (Some sid) reason s) = [])"
proof -
  let ?r = "report sock (Some sid) reason s"
  have a: "score (fst ?r) x = (if x = t then score s t + 1 else score s x)"
    using found t by (simp add: score_after_report)
  have b: "(Emit t (Kicked ''abuse'') \<in> set (snd ?r)) = (3 < score s t + 1 \<and> connected s t)"
    using kicked_iff [OF found, of sock reason] t by auto
  have c: "(Close t \<in> set (snd ?r)) = (3 < score s t + 1 \<and> connected s t)"
    using closed_iff [OF found, of sock reason] t by auto
  have d: "if 3 < score s t + 1 \<and> connected s t then
        \<not> connected (fst ?r) t \<and> find_session (fst ?r) (Some sid) = None \<and>
        report sock' (Some sid) reason' (fst ?r) = (fst ?r, [])
      else ?r = (bump t s, [])"
  proof (cases "3 \<le> score s t \<and> connected s t")
    case True
    have r: "fst ?r = fst (socket_disconnect t (bump t s))"
      using found t True by (simp add: report_found)
    have "map_of (activeSessions (bump t s)) sid = Some p"
      using found by (simp add: find_session_def bump_fields)
    then have gone: "find_session (fst ?r) (Some sid) = None"
      using keys session_gone_after [of "bump t s" sid p t] t
      by (simp add: r bump_fields involves_other_of)
    have nc: "\<not> connected (fst ?r) t"
      by (simp only: r not_connected_after not_False_eq_True)
    have "3 < score s t + 1 \<and> connected s t" using True by simp
    with nc gone report_none [OF gone, of sock' reason'] show ?thesis
      by (simp only: if_True simp_thms)
  next
    case False
    then have "?r = (bump t s, [])" using found t by (auto simp: report_found)
    moreover from False have "\<not> (3 < score s t + 1 \<and> connected s t)" by auto
    ultimately show ?thesis by (simp only: if_False)
  qed
  have e: "if connected s t then
        count_list (snd (report_times n sock (Some sid) reason s)) (Emit t (Kicked ''abuse'')) =
          (if 0 < n \<and> 4 \<le> n + score s t then 1 else 0) \<and>
        count_list (snd (report_times n sock (Some sid) reason s)) (Close t) =
          (if 0 < n \<and> 4 \<le> n + score s t then 1 else 0)
      else snd (report_times n sock (Some sid) reason s) = []"
  proof (cases "connected s t")
    case True
    with report_times_kicks [OF found _ keys, of sock n reason] t show ?thesis by simp
  next
    case False
    with report_times_unconnected [OF found, of sock n reason] t show ?thesis by simp
  qed
  from a b c d e show ?thesis by simp
qed

theorem report_ejects_on_fourth_witness:
  "find_session matched_state (Some ''sess_u2'') = Some \<lparr>sess_a = ''Y'', sess_b = ''X''\<rparr> \<and>
   connected matched_state ''Y'' \<and>
   score (fst (report ''X'' (Some ''sess_u2'') None matched_state)) ''Y'' = 1 \<and>
   Emit ''Y'' (Kicked ''abuse'') \<notin> set (snd (report ''X'' (Some ''sess_u2'') None matched_state)) \<and>
   count_list (snd (report_times 3 ''X'' (Some ''sess_u2'') None matched_state))
     (Emit ''Y'' (Kicked ''abuse'')) = 0 \<and>
   count_list (snd (report_times 4 ''X'' (Some ''sess_u2'') None matched_state))
     (Emit ''Y'' (Kicked ''abuse'')) = 1 \<and>
   count_list (snd (report_times 7 ''X'' (Some ''sess_u2'') None matched_state))
     (Close ''Y'') = 1"
proof -
  have found: "find_session matched_state (Some ''sess_u2'') = Some \<lparr>sess_a = ''Y'', sess_b = ''X''\<rparr>"
    by (simp add: find_session_def matched_state_def)
  have t: "''Y'' = other_of \<lparr>sess_a = ''Y'', sess_b = ''X''\<rparr> ''X''"
    by (simp add: other_of_def)
  have conn: "connected matched_state ''Y''"
    by (simp add: connected_def matched_state_def)
  have keys: "distinct (map fst (activeSessions matched_state))"
    by (simp add: matched_state_def)
  have z: "score matched_state ''Y'' = 0"
    by (simp add: score_def matched_state_def)
  note th = report_ejects_on_fourth [OF found t keys]
  from th [of None "''Y''" "''X''" None 3] th [of None "''Y''" "''X''" None 4]
       th [of None "''Y''" "''X''" None 7] found conn z
  show ?thesis by simp
qed

text \<open>
  C2 as stated fails where the waiting list is held by Redis: \<open>X\<close> is queued and
  disconnects, and its id stays in the list; \<open>Y\<close> joins and is matched with it. Four
  reports by \<open>Y\<close> take the score of \<open>X\<close> to 4, and nothing is emitted beyond the
  notifications of the two joins: no \<open>kicked\<close>, no close.
\<close>

theorem stale_peer_never_kicked:
  "score (final (run (init_server True []) stale_peer_events)) ''X'' = 4 \<and>
   find_session (final (run (init_server True []) stale_peer_events)) (Some ''sess_u2'') =
     Some \<lparr>sess_a = ''Y'', sess_b = ''X''\<rparr> \<and>
   emitted (run (init_server True []) stale_peer_events) =
     [Emit ''X'' Queued, Emit ''Y'' (Matched ''sess_u2'' ''X''), Emit ''X'' (Matched ''sess_u2'' ''Y'')]"
  by (simp add: stale_peer_events_def final_def emitted_def run_defs)

text \<open>
  C10: a report on an existing session by a socket that is in neither slot is handled
  like any other: the target is slot \<open>a\<close>, whose score goes up by one, and which is
  kicked when that takes the score past 3 (and it is connected). Membership of the
  reporter is never tested.
\<close>

theorem report_by_non_member:
  assumes found: "map_of (activeSessions s) sid = Some p"
    and na: "sock \<noteq> sess_a p" and nb: "sock \<noteq> sess_b p"
  shows
    "score (fst (report sock (Some sid) reason s)) (sess_a p) = score s (sess_a p) + 1 \<and>
     (Emit (sess_a p) (Kicked ''abuse'') \<in> set (snd (report sock (Some sid) reason s))) =
       (3 \<le> score s (sess_a p) \<and> connected s (sess_a p)) \<and>
     handle (OnReport sock (Some (Some sid, reason))) s =
       (if connected s sock then Inr (report sock (Some sid) reason s) else Inr (s, []))"
proof -
  have f: "find_session s (Some sid) = Some p"
    using found by (simp add: find_session_def)
  have o: "other_of p sock = sess_a p"
    using na by (auto simp: other_of_def)
  from score_after_report [OF f, of sock reason "sess_a p"] kicked_iff [OF f, of sock reason] o
  show ?thesis by simp
qed

theorem report_by_non_member_witness:
  "connected watched_state ''Z'' \<and>
   score (fst (report ''Z'' (Some ''sess_u2'') None watched_state)) ''Y'' = 1 \<and>
   handle (OnReport ''Z'' (Some (Some ''sess_u2'', None))) watched_state =
     Inr (report ''Z'' (Some ''sess_u2'') None watched_state)"
proof -
  have found: "map_of (activeSessions watched_state) ''sess_u2'' = Some \<lparr>sess_a = ''Y'', sess_b = ''X''\<rparr>"
    by (simp add: watched_state_def matched_state_def)
  have na: "''Z'' \<noteq> sess_a \<lparr>sess_a = ''Y'', sess_b = ''X''\<rparr>"
    and nb: "''Z'' \<noteq> sess_b \<lparr>sess_a = ''Y'', sess_b = ''X''\<rparr>" by simp_all
  have conn: "connected watched_state ''Z''"
    by (simp add: connected_def watched_state_def matched_state_def)
  have z: "score watched_state ''Y'' = 0"
    by (simp add: score_def watched_state_def matched_state_def)
  from report_by_non_member [OF found na nb, of None] conn z show ?thesis by simp
qed

subsection \<open>Disconnection\<close>

lemma list_at_swept:
  "list_at (map (\<lambda>(key, arr). (key, filter (\<lambda>x. x \<noteq> sock) arr)) al) k =
     filter (\<lambda>x. x \<noteq> sock) (list_at al k)"
  by (simp add: list_at_def map_of_map split: option.splits)

lemma disconnect_fields:
  "inMemoryQueues (fst (disconnect sock s)) =
     map (\<lambda>(key, arr). (key, filter (\<lambda>x. x \<noteq> sock) arr)) (inMemoryQueues s)"
  "activeSessions (fst (disconnect sock s)) = filter (\<lambda>(k, p). \<not> involves sock p) (activeSessions s)"
  "snd (disconnect sock s) =
     map (\<lambda>(k, p). Emit (other_of p sock) PeerLeft) (filter (\<lambda>(k, p). involves sock p) (activeSessions s))"
  "redisLists (fst (disconnect sock s)) = redisLists s"
  "sockets (fst (disconnect sock s)) = sockets s"
  "redisClient (fst (disconnect sock s)) = redisClient s"
  by (simp_all add: disconnect_def drop_sessions_filter)

text \<open>
  C5, as amended: with the keys of the session map distinct, disconnecting a participant
  deletes every session it is in, emitting \<open>peer_left\<close> to the other member of each,
  so that a later report on such a session changes and emits nothing; when it is in
  exactly one session, the one \<open>peer_left\<close> to that session's other member is all that
  is emitted. When it is in no session nothing is emitted and the sessions stay as they
  are. In both cases it is filtered out of every in-memory queue, and the Redis lists are
  left as they were.
\<close>

theorem disconnect_cleanup:
  assumes keys: "distinct (map fst (activeSessions s))"
  shows
    "(map_of (activeSessions s) sid = Some p \<and> involves sock p \<longrightarrow>
        find_session (fst (disconnect sock s)) (Some sid) = None \<and>
        report sock' (Some sid) reason (fst (disconnect sock s)) = (fst (disconnect sock s), []) \<and>
        Emit (other_of p sock) PeerLeft \<in> set (snd (disconnect sock s))) \<and>
     (filter (\<lambda>(k, q). involves sock q) (activeSessions s) = [(sid, p)] \<longrightarrow>
        snd (disconnect sock s) = [Emit (other_of p sock) PeerLeft]) \<and>
     (filter (\<lambda>(k, q). involves sock q) (activeSessions s) = [] \<longrightarrow>
        snd (disconnect sock s) = [] \<and>
        activeSessions (fst (disconnect sock s)) = activeSessions s) \<and>
     list_at (inMemoryQueues (fst (disconnect sock s))) k =
       filter (\<lambda>x. x \<noteq> sock) (list_at (inMemoryQueues s) k) \<and>
     sock \<notin> set (list_at (inMemoryQueues (fst (disconnect sock s))) k) \<and>
     redisLists (fst (disconnect sock s)) = redisLists s \<and>
     handle (OnDisconnect sock) s =
       (if connected s sock then Inr (disconnect sock (s\<lparr>sockets := AList.delete sock (sockets s)\<rparr>))
        else Inr (s, []))"
proof -
  let ?s = "fst (disconnect sock s)"
  have a: "map_of (activeSessions s) sid = Some p \<and> involves sock p \<longrightarrow>
        find_session ?s (Some sid) = None \<and>
        report sock' (Some sid) reason ?s = (?s, []) \<and>
        Emit (other_of p sock) PeerLeft \<in> set (snd (disconnect sock s))"
  proof (intro impI, elim conjE)
    assume m: "map_of (activeSessions s) sid = Some p" and i: "involves sock p"
    have gone: "find_session ?s (Some sid) = None"
      using keys m i by (simp add: find_session_def disconnect_fields map_of_filter_distinct)
    have "(sid, p) \<in> set (activeSessions s)" using m by (rule map_of_SomeD)
    then have "Emit (other_of p sock) PeerLeft \<in> set (snd (disconnect sock s))"
      using i by (force simp: disconnect_fields)
    with gone report_none [OF gone] show "find_session ?s (Some sid) = None \<and>
        report sock' (Some sid) reason ?s = (?s, []) \<and>
        Emit (other_of p sock) PeerLeft \<in> set (snd (disconnect sock s))" by simp
  qed
  have b: "filter (\<lambda>(k, q). involves sock q) (activeSessions s) = [(sid, p)] \<longrightarrow>
        snd (disconnect sock s) = [Emit (other_of p sock) PeerLeft]"
    by (simp add: disconnect_fields)
  have c: "filter (\<lambda>(k, q). involves sock q) (activeSessions s) = [] \<longrightarrow>
        snd (disconnect sock s) = [] \<and> activeSessions ?s = activeSessions s"
    by (auto simp: disconnect_fields filter_empty_conv filter_id_conv)
  have d: "list_at (inMemoryQueues ?s) k = filter (\<lambda>x. x \<noteq> sock) (list_at (inMemoryQueues s) k)"
    by (simp add: disconnect_fields list_at_swept)
  have e: "sock \<notin> set (list_at (inMemoryQueues ?s) k)"
    by (simp add: d)
  have f: "redisLists ?s = redisLists s" by (simp add: disconnect_fields)
  have g: "handle (OnDisconnect sock) s =
       (if connected s sock then Inr (disconnect sock (s\<lparr>sockets := AList.delete sock (sockets s)\<rparr>))
        else Inr (s, []))"
    by (simp add: socket_disconnect_def)
  from a b c d e f g show ?thesis by blast
qed

theorem disconnect_cleanup_witness:
  "snd (disconnect ''Y'' matched_state) = [Emit ''X'' PeerLeft] \<and>
   find_session (fst (disconnect ''Y'' matched_state)) (Some ''sess_u2'') = None \<and>
   report ''X'' (Some ''sess_u2'') None (fst (disconnect ''Y'' matched_state)) =
     (fst (disconnect ''Y'' matched_state), []) \<and>
   snd (disconnect ''X'' queued_state) = [] \<and>
   list_at (inMemoryQueues (fst (disconnect ''X'' queued_state))) ''all'' = []"
proof -
  have keys: "distinct (map fst (activeSessions matched_state))"
    and keys': "distinct (map fst (activeSessions queued_state))"
    by (simp_all add: matched_state_def queued_state_def)
  have m: "map_of (activeSessions matched_state) ''sess_u2'' = Some \<lparr>sess_a = ''Y'', sess_b = ''X''\<rparr>"
    and i: "involves ''Y'' \<lparr>sess_a = ''Y'', sess_b = ''X''\<rparr>"
    and f: "filter (\<lambda>(k, q). involves ''Y'' q) (activeSessions matched_state) =
              [(''sess_u2'', \<lparr>sess_a = ''Y'', sess_b = ''X''\<rparr>)]"
    and o: "other_of \<lparr>sess_a = ''Y'', sess_b = ''X''\<rparr> ''Y'' = ''X''"
    by (simp_all add: matched_state_def involves_def other_of_def)
  have n: "filter (\<lambda>(k, q). involves ''X'' q) (activeSessions queued_state) = []"
    and q: "list_at (inMemoryQueues queued_state) ''all'' = [''X'']"
    by (simp_all add: queued_state_def list_at_def)
  from disconnect_cleanup [OF keys, of "''sess_u2''" "\<lparr>sess_a = ''Y'', sess_b = ''X''\<rparr>" "''Y''" "''X''" None]
       disconnect_cleanup [OF keys', of _ _ "''X''" _ _ "''all''"] m i f o n q
  show ?thesis by simp
qed

text \<open>
  C5 as stated fails where the waiting list is held by Redis: \<open>X\<close> joins, is queued in
  the list \<open>waiting:all\<close> and disconnects, unmatched; it is still in that list
  afterwards.
\<close>

theorem redis_list_not_swept:
  "list_at (redisLists (final (run (init_server True []) redis_queued_events))) (waiting_key ''all'') = [''X''] \<and>
   activeSessions (final (run (init_server True []) redis_queued_events)) = [] \<and>
   emitted (run (init_server True []) redis_queued_events) = [Emit ''X'' Queued]"
  by (simp add: redis_queued_events_def final_def emitted_def run_defs)

subsection \<open>Relay\<close>

text \<open>
  C9: a signal or relay message with a named recipient leaves the state as it is and
  emits exactly one message, addressed to the recipient, carrying the sender's id and the
  payload as received, whatever the payload is. The emission reaches the recipient when
  it is connected and nobody otherwise; nothing is stored and nothing goes back to the
  sender.
\<close>

theorem relay_verbatim:
  "to \<noteq> [] \<Longrightarrow>
     signal sock (Some to) payload s = (s, [Emit to (SignalMsg sock payload)]) \<and>
     relay_msg sock (Some to) payload s = (s, [Emit to (RelayMsg sock payload)]) \<and>
     reaches s (Emit to (SignalMsg sock payload)) =
       (if connected s to then [(to, SignalMsg sock payload)] else []) \<and>
     reaches s (Emit to (RelayMsg sock payload)) =
       (if connected s to then [(to, RelayMsg sock payload)] else []) \<and>
     handle (OnSignal sock (Some (Some to, payload))) s =
       Inr (s, if connected s sock then [Emit to (SignalMsg sock payload)] else []) \<and>
     handle (OnRelayMsg sock (Some (Some to, payload))) s =
       Inr (s, if connected s sock then [Emit to (RelayMsg sock payload)] else [])"
  by (simp add: signal_def relay_msg_def reaches_def)

theorem relay_verbatim_witness:
  "signal ''X'' (Some ''Z'') (Some (JStr ''offer'')) matched_state =
     (matched_state, [Emit ''Z'' (SignalMsg ''X'' (Some (JStr ''offer'')))]) \<and>
   reaches matched_state (Emit ''Z'' (SignalMsg ''X'' (Some (JStr ''offer'')))) = [] \<and>
   relay_msg ''X'' (Some ''Y'') (Some (JStr ''hi'')) matched_state =
     (matched_state, [Emit ''Y'' (RelayMsg ''X'' (Some (JStr ''hi'')))]) \<and>
   reaches matched_state (Emit ''Y'' (RelayMsg ''X'' (Some (JStr ''hi'')))) =
     [(''Y'', RelayMsg ''X'' (Some (JStr ''hi'')))]"
proof -
  have z: "''Z'' \<noteq> ([] :: string)" and y: "''Y'' \<noteq> ([] :: string)" by simp_all
  have cz: "\<not> connected matched_state ''Z''" and cy: "connected matched_state ''Y''"
    by (simp_all add: connected_def matched_state_def)
  from relay_verbatim [OF z, of "''X''" "Some (JStr ''offer'')" matched_state]
       relay_verbatim [OF y, of "''X''" "Some (JStr ''hi'')" matched_state] cz cy
  show ?thesis by simp
qed

subsection \<open>Leaving a queue\<close>

lemma list_at_update:
  "list_at (AList.update k v al) k' = (if k' = k then v else list_at al k')"
  by (simp add: list_at_def update_conv')

lemma list_at_remove_memory:
  "list_at (inMemoryQueues (remove_memory fk x s)) k =
     (if k = fk then filter (\<lambda>y. y \<noteq> x) (list_at (inMemoryQueues s) fk)
      else list_at (inMemoryQueues s) k)"
  by (simp add: remove_memory_def list_at_update)






lemma faulty_queued_state_reached:
  "run (init_server True [False, False, True, True]) [OnConnection ''X'', OnJoinQueue ''X'' None ''u1''] =
     Inr (faulty_queued_state, [Emit ''X'' Queued])"
  by (simp add: faulty_queued_state_def run_defs)












subsection \<open>Filter keys\<close>

text \<open>
  C6, as amended: the key is a function of the filter value as the client wrote it. A
  falsy or absent value and a value without keys give the reserved key \<open>all\<close>. A
  non-empty filter object gives its \<^verbatim>\<open>JSON.stringify\<close> text, which lists the
  attribute-value pairs in the object's own order and is never \<open>all\<close>; so equal pairs
  in equal order give equal keys.
\<close>

theorem filter_key_serialisation:
  "(falsy filters \<longrightarrow> makeFilterKey filters = ''all'') \<and>
   makeFilterKey (Some (JObj [])) = ''all'' \<and>
   makeFilterKey (Some (JArr [])) = ''all'' \<and>
   (kvs \<noteq> [] \<longrightarrow>
      makeFilterKey (Some (JObj kvs)) = stringify (JObj kvs) \<and>
      makeFilterKey (Some (JObj kvs)) \<noteq> ''all'')"
  by (auto simp: makeFilterKey_def split: option.splits)

theorem filter_key_serialisation_witness:
  "falsy (Some JNull) \<and> makeFilterKey (Some JNull) = ''all'' \<and>
   makeFilterKey (Some (JObj [(''lang'', JStr ''en'')])) =
     stringify (JObj [(''lang'', JStr ''en'')]) \<and>
   makeFilterKey (Some (JObj [(''lang'', JStr ''en'')])) \<noteq> ''all''"
  using filter_key_serialisation [of "Some JNull" "[(''lang'', JStr ''en'')]"]
  by simp

text \<open>
  C6 as stated fails: the same two attribute-value pairs, written in the two possible
  orders, give two different keys.
\<close>

theorem filter_key_order_counterexample:
  "makeFilterKey (Some (JObj [(''gender'', JStr ''f''), (''lang'', JStr ''en'')])) \<noteq>
   makeFilterKey (Some (JObj [(''lang'', JStr ''en''), (''gender'', JStr ''f'')]))"
  by (simp add: makeFilterKey_def quote_def escape_char_def)

subsection \<open>Counting occurrences\<close>

lemma ssum_update:
  "length (filter (\<lambda>(sid, pair). involves x pair) (AList.update k v al)) +
     (case map_of al k of None \<Rightarrow> 0 | Some old \<Rightarrow> if involves x old then 1 else 0) =
   length (filter (\<lambda>(sid, pair). involves x pair) al) + (if involves x v then 1 else 0)"
  by (induction al) auto


lemma pop_memory_result:
  "fst (pop_memory fk s) =
     (case list_at (inMemoryQueues s) fk of [] \<Rightarrow> None | p # rest \<Rightarrow> if p = [] then None else Some p)"
  by (simp add: pop_memory_def Let_def)

lemma push_memory_fields:
  "activeSessions (push_memory fk y s) = activeSessions s"
  "redisClient (push_memory fk y s) = redisClient s"
  by (simp_all add: push_memory_def)

lemma session_count_set:
  "session_count (s\<lparr>activeSessions := AList.update k v (activeSessions s)\<rparr>) x \<le>
     session_count s x + (if involves x v then 1 else 0)"
  using ssum_update [of x k v "activeSessions s"] by (simp add: session_count_def)

lemma join_queue_matched:
  "usable_peer sock (fst (popWaiting (makeFilterKey filters) (set_filterKey sock (makeFilterKey filters) s))) \<Longrightarrow>
     popWaiting (makeFilterKey filters) (set_filterKey sock (makeFilterKey filters) s) = (Some p, s2) \<Longrightarrow>
     join_queue sock filters uuid s =
       (set_sessionId p (''sess_'' @ uuid)
          (set_sessionId sock (''sess_'' @ uuid)
             (s2\<lparr>activeSessions :=
                  AList.update (''sess_'' @ uuid) \<lparr>sess_a = sock, sess_b = p\<rparr> (activeSessions s2)\<rparr>)),
        [Emit sock (Matched (''sess_'' @ uuid) p), Emit p (Matched (''sess_'' @ uuid) sock)])"
  by (simp add: join_queue_def Let_def)

lemma join_queue_queued:
  "\<not> usable_peer sock (fst (popWaiting (makeFilterKey filters) (set_filterKey sock (makeFilterKey filters) s))) \<Longrightarrow>
     join_queue sock filters uuid s =
       (pushWaiting (makeFilterKey filters) sock
          (snd (popWaiting (makeFilterKey filters) (set_filterKey sock (makeFilterKey filters) s))),
        [Emit sock Queued])"
  by (auto simp: join_queue_def Let_def split: prod.splits)



lemma set_fields:
  "activeSessions (set_filterKey a b s) = activeSessions s"
  "inMemoryQueues (set_filterKey a b s) = inMemoryQueues s"
  "redisClient (set_filterKey a b s) = redisClient s"
  "activeSessions (set_sessionId a b s) = activeSessions s"
  "inMemoryQueues (set_sessionId a b s) = inMemoryQueues s"
  "redisClient (set_sessionId a b s) = redisClient s"
  by (simp_all add: set_filterKey_def set_sessionId_def)

subsection \<open>What the handlers leave alone\<close>

lemma popWaiting_fields:
  "activeSessions (snd (popWaiting fk s)) = activeSessions s"
  "redisClient (snd (popWaiting fk s)) = redisClient s"
  by (simp_all add: popWaiting_def pop_memory_def redis_call_def Let_def
      split: list.splits prod.splits bool.splits)

lemma pushWaiting_fields:
  "activeSessions (pushWaiting fk x s) = activeSessions s"
  "redisClient (pushWaiting fk x s) = redisClient s"
  by (simp_all add: pushWaiting_def push_memory_def redis_call_def Let_def
      split: list.splits prod.splits bool.splits)

lemma removeFromQueue_fields:
  "activeSessions (removeFromQueue fk x s) = activeSessions s"
  "redisClient (removeFromQueue fk x s) = redisClient s"
  by (simp_all add: removeFromQueue_def remove_memory_def redis_call_def Let_def
      split: list.splits prod.splits bool.splits)

lemma join_queue_sessions:
  "activeSessions (fst (join_queue sock filters uuid s)) = activeSessions s \<or>
   (\<exists>p. p \<noteq> sock \<and>
        activeSessions (fst (join_queue sock filters uuid s)) =
          AList.update (''sess_'' @ uuid) \<lparr>sess_a = sock, sess_b = p\<rparr> (activeSessions s))"
proof (cases "usable_peer sock (fst (popWaiting (makeFilterKey filters) (set_filterKey sock (makeFilterKey filters) s)))")
  case True
  let ?pw = "popWaiting (makeFilterKey filters) (set_filterKey sock (makeFilterKey filters) s)"
  from True obtain p where p: "fst ?pw = Some p" "p \<noteq> sock" by (auto simp: usable_peer_iff)
  then have "?pw = (Some p, snd ?pw)" by (simp add: prod_eq_iff)
  from join_queue_matched [OF True this, of uuid] p(2) show ?thesis
    by (auto simp: set_fields popWaiting_fields)
next
  case False
  then show ?thesis
    by (simp add: join_queue_queued pushWaiting_fields popWaiting_fields set_fields)
qed

lemma join_queue_redisClient: "redisClient (fst (join_queue sock filters uuid s)) = redisClient s"
proof (cases "usable_peer sock (fst (popWaiting (makeFilterKey filters) (set_filterKey sock (makeFilterKey filters) s)))")
  case True
  let ?pw = "popWaiting (makeFilterKey filters) (set_filterKey sock (makeFilterKey filters) s)"
  from True obtain p where p: "fst ?pw = Some p" by (auto simp: usable_peer_iff)
  then have "?pw = (Some p, snd ?pw)" by (simp add: prod_eq_iff)
  from join_queue_matched [OF True this, of uuid] show ?thesis
    by (simp add: set_fields popWaiting_fields)
next
  case False
  then show ?thesis
    by (simp add: join_queue_queued pushWaiting_fields popWaiting_fields set_fields)
qed

lemma leave_queue_fields:
  "activeSessions (fst (leave_queue sock s)) = activeSessions s"
  "redisClient (fst (leave_queue sock s)) = redisClient s"
  by (simp_all add: leave_queue_def removeFromQueue_fields split: option.splits)

lemma report_sessions:
  "activeSessions (fst (report sock sid reason s)) = activeSessions s \<or>
   (\<exists>t. activeSessions (fst (report sock sid reason s)) =
        filter (\<lambda>(k, p). \<not> involves t p) (activeSessions s))"
proof (cases "find_session s sid")
  case None
  then show ?thesis by (simp add: report_none)
next
  case (Some p)
  then show ?thesis
    by (simp add: report_found sessions_socket_disconnect bump_fields) blast
qed

lemma redisClient_socket_disconnect: "redisClient (fst (socket_disconnect t s)) = redisClient s"
  by (simp add: socket_disconnect_def disconnect_fields)

lemma report_redisClient: "redisClient (fst (report sock sid reason s)) = redisClient s"
proof (cases "find_session s sid")
  case None
  then show ?thesis by (simp add: report_none)
next
  case (Some p)
  then show ?thesis
    by (simp add: report_found redisClient_socket_disconnect bump_def)
qed

lemma handle_state:
  assumes "handle e s = Inr (s', outs)"
  shows "s' = s \<or>
     (case e of
        OnConnection sock \<Rightarrow>
          s' = s\<lparr>sockets := AList.update sock \<lparr>filterKey = None, sessionId = None\<rparr> (sockets s)\<rparr>
      | OnJoinQueue sock filters uuid \<Rightarrow> s' = fst (join_queue sock filters uuid s)
      | OnLeaveQueue sock \<Rightarrow> s' = fst (leave_queue sock s)
      | OnSignal sock arg \<Rightarrow> False
      | OnRelayMsg sock arg \<Rightarrow> False
      | OnReport sock arg \<Rightarrow> (\<exists>sid reason. s' = fst (report sock sid reason s))
      | OnDisconnect sock \<Rightarrow> s' = fst (socket_disconnect sock s)
      | RedisExpired k \<Rightarrow> s' = s\<lparr>redisLists := AList.delete k (redisLists s)\<rparr>)"
proof (cases e)
  case (OnReport sock arg)
  with assms show ?thesis
    by (cases arg) (auto split: if_splits, metis fst_conv)
qed (use assms in \<open>auto simp: signal_def relay_msg_def split: if_splits option.splits\<close>)

subsection \<open>The schedule without overtaking\<close>

text \<open>
  Delivering an event and then giving its handler five turns, with no handler suspended
  before, is \<open>handle\<close>: the \<^verbatim>\<open>async\<close> listeners cut at their \<^verbatim>\<open>await\<close>s do, turn
  after turn, what \<open>join_queue\<close> and \<open>leave_queue\<close> do in one step. So every
  \<open>run\<close> is an \<open>exec\<close>, the one of \<open>back_to_back\<close>.
\<close>

lemma settled_pair: "settled (Inr (s, outs)) = Inr (\<lparr>core = s, tasks = []\<rparr>, outs)"
  by (simp add: settled_def)

lemma exec_idle:
  "set ts \<subseteq> {Resume 0} \<Longrightarrow> exec \<lparr>core = s, tasks = []\<rparr> ts = settled (Inr (s, []))"
  by (induction ts) (simp_all add: settled_def)

lemma exec_turn:
  "exec \<lparr>core = s, tasks = [t]\<rparr> (Resume 0 # ts) =
     map_sum id (apsnd ((@) (snd (snd (resume t s)))))
       (exec \<lparr>core = fst (resume t s),
               tasks = (case fst (snd (resume t s)) of None \<Rightarrow> [] | Some t' \<Rightarrow> [t'])\<rparr> ts)"
  by (cases "resume t s") (simp add: replace_task_def split: sum.splits)

lemma exec_queued:
  "set ts \<subseteq> {Resume 0} \<Longrightarrow>
   exec \<lparr>core = s, tasks = [JoinQueued sock]\<rparr> (Resume 0 # ts) =
     settled (Inr (s, [Emit sock Queued]))"
  by (simp only: exec_turn) (simp add: exec_idle settled_def del: exec.simps)

lemma exec_push_failed:
  "set ts \<subseteq> {Resume 0} \<Longrightarrow>
   exec \<lparr>core = s, tasks = [JoinPushFailed sock fk]\<rparr> (Resume 0 # Resume 0 # ts) =
     settled (Inr (push_memory fk sock s, [Emit sock Queued]))"
  by (simp only: exec_turn) (simp add: exec_queued settled_def del: exec.simps)

lemma exec_expire:
  assumes "set ts \<subseteq> {Resume 0}"
  shows "exec \<lparr>core = s, tasks = [JoinExpire sock fk]\<rparr> (Resume 0 # Resume 0 # Resume 0 # ts) =
     settled (Inr (case redis_call s of
                (True, s1) \<Rightarrow> push_memory fk sock s1
              | (False, s1) \<Rightarrow> s1, [Emit sock Queued]))"
proof (cases "redis_call s")
  case (Pair f s1)
  with assms show ?thesis
    by (simp only: exec_turn)
       (cases f; simp add: exec_queued exec_push_failed settled_def del: exec.simps)
qed

lemma exec_guard_push:
  assumes "\<not> usable_peer sock peer" and "set ts \<subseteq> {Resume 0}"
  shows "exec \<lparr>core = s, tasks = [JoinGuard sock fk uuid peer]\<rparr>
           (Resume 0 # Resume 0 # Resume 0 # Resume 0 # ts) =
         settled (Inr (pushWaiting fk sock s, [Emit sock Queued]))"
proof (cases "redisClient s")
  case False
  with assms show ?thesis
    by (simp only: exec_turn)
       (simp add: exec_queued settled_def pushWaiting_def del: exec.simps)
next
  case True
  obtain f s1 where r: "redis_call s = (f, s1)" by (cases "redis_call s")
  show ?thesis
  proof (cases f)
    case True
    with assms \<open>redisClient s\<close> r show ?thesis
      by (simp only: exec_turn)
         (simp add: exec_push_failed settled_def pushWaiting_def del: exec.simps)
  next
    case False
    with assms \<open>redisClient s\<close> r show ?thesis
      by (simp only: exec_turn)
         (simp add: exec_expire settled_def pushWaiting_def Let_def del: exec.simps
            split: prod.splits bool.splits)
  qed
qed

lemma exec_guard_match:
  assumes "usable_peer sock peer" and "set ts \<subseteq> {Resume 0}"
  shows "exec \<lparr>core = s, tasks = [JoinGuard sock fk uuid peer]\<rparr> (Resume 0 # ts) =
         settled (Inr
           (set_sessionId (the peer) (''sess_'' @ uuid)
              (set_sessionId sock (''sess_'' @ uuid)
                 (s\<lparr>activeSessions :=
                      AList.update (''sess_'' @ uuid) \<lparr>sess_a = sock, sess_b = the peer\<rparr>
                        (activeSessions s)\<rparr>)),
            [Emit sock (Matched (''sess_'' @ uuid) (the peer)),
             Emit (the peer) (Matched (''sess_'' @ uuid) sock)]))"
  using assms
  by (simp only: exec_turn) (simp add: exec_idle settled_def Let_def del: exec.simps)

lemma join_queue_unfold:
  "join_queue sock filters uuid s =
     (let fk = makeFilterKey filters;
          pw = popWaiting fk (set_filterKey sock fk s)
      in if usable_peer sock (fst pw) then
           (set_sessionId (the (fst pw)) (''sess_'' @ uuid)
              (set_sessionId sock (''sess_'' @ uuid)
                 ((snd pw)\<lparr>activeSessions :=
                      AList.update (''sess_'' @ uuid) \<lparr>sess_a = sock, sess_b = the (fst pw)\<rparr>
                        (activeSessions (snd pw))\<rparr>)),
            [Emit sock (Matched (''sess_'' @ uuid) (the (fst pw))),
             Emit (the (fst pw)) (Matched (''sess_'' @ uuid) sock)])
         else (pushWaiting fk sock (snd pw), [Emit sock Queued]))"
  by (simp add: join_queue_def Let_def split: prod.splits)

lemma exec_guard:
  assumes "set ts \<subseteq> {Resume 0}"
  shows "exec \<lparr>core = s2, tasks = [JoinGuard sock fk uuid peer]\<rparr>
      (Resume 0 # Resume 0 # Resume 0 # Resume 0 # ts) =
   settled (Inr
     (if usable_peer sock peer then
        (set_sessionId (the peer) (''sess_'' @ uuid)
           (set_sessionId sock (''sess_'' @ uuid)
              (s2\<lparr>activeSessions :=
                   AList.update (''sess_'' @ uuid) \<lparr>sess_a = sock, sess_b = the peer\<rparr>
                     (activeSessions s2)\<rparr>)),
         [Emit sock (Matched (''sess_'' @ uuid) (the peer)),
          Emit (the peer) (Matched (''sess_'' @ uuid) sock)])
      else (pushWaiting fk sock s2, [Emit sock Queued])))"
proof (cases "usable_peer sock peer")
  case True
  have "set (Resume 0 # Resume 0 # Resume 0 # ts) \<subseteq> {Resume 0}" using assms by simp
  from exec_guard_match [OF True this] True show ?thesis by (simp only: if_True)
next
  case False
  from exec_guard_push [OF False assms] False show ?thesis by (simp only: if_False)
qed

lemma five_turns: "replicate 5 (Resume 0) = [Resume 0, Resume 0, Resume 0, Resume 0, Resume 0]"
  by (simp add: numeral_eq_Suc)

lemma exec_join:
  assumes "connected s sock"
  shows "exec \<lparr>core = s, tasks = []\<rparr>
           (Deliver (OnJoinQueue sock filters uuid) # replicate 5 (Resume 0)) =
         settled (Inr (join_queue sock filters uuid s))"
proof -
  let ?fk = "makeFilterKey filters"
  let ?s1 = "set_filterKey sock ?fk s"
  have t0: "set ([] :: tick list) \<subseteq> {Resume 0}" and t1: "set [Resume 0] \<subseteq> {Resume 0}"
    by simp_all
  have d: "step (Deliver (OnJoinQueue sock filters uuid)) \<lparr>core = s, tasks = []\<rparr> =
      Inr (\<lparr>core = fst (join_start sock filters uuid s), tasks = [snd (join_start sock filters uuid s)]\<rparr>, [])"
    using assms by (simp split: prod.splits)
  have e: "exec \<lparr>core = s, tasks = []\<rparr> (Deliver (OnJoinQueue sock filters uuid) # ts) =
      exec \<lparr>core = fst (join_start sock filters uuid s), tasks = [snd (join_start sock filters uuid s)]\<rparr> ts"
    for ts
    by (simp only: exec.simps d) (simp split: sum.splits)
  show ?thesis
  proof (cases "redisClient s \<and> fst (redis_call ?s1)")
    case True
    then obtain s2 where r: "redis_call ?s1 = (True, s2)" by (cases "redis_call ?s1") auto
    from True have rc: "redisClient ?s1" by (simp add: set_filterKey_def)
    have js: "join_start sock filters uuid s = (s2, JoinPopFailed sock ?fk uuid)"
      using rc r by (simp add: join_start_def Let_def)
    have pw: "popWaiting ?fk ?s1 = pop_memory ?fk s2"
      using rc r by (simp add: popWaiting_def)
    obtain v s3 where pm: "pop_memory ?fk s2 = (v, s3)" by (cases "pop_memory ?fk s2")
    have g: "exec \<lparr>core = s3, tasks = [JoinGuard sock ?fk uuid v]\<rparr>
               [Resume 0, Resume 0, Resume 0, Resume 0] = settled (Inr (join_queue sock filters uuid s))"
      by (simp only: exec_guard [OF t0] join_queue_unfold pw pm Let_def fst_conv snd_conv)
    show ?thesis
      by (simp only: e five_turns js fst_conv snd_conv exec_turn)
         (simp add: g pm settled_def del: exec.simps split: prod.splits)
  next
    case False
    have js: "join_start sock filters uuid s =
        (snd (popWaiting ?fk ?s1), JoinGuard sock ?fk uuid (fst (popWaiting ?fk ?s1)))"
      using False
      by (auto simp: join_start_def popWaiting_def Let_def set_filterKey_def
          split: prod.splits list.splits bool.splits)
    have "exec \<lparr>core = snd (popWaiting ?fk ?s1), tasks = [JoinGuard sock ?fk uuid (fst (popWaiting ?fk ?s1))]\<rparr>
               [Resume 0, Resume 0, Resume 0, Resume 0, Resume 0] = settled (Inr (join_queue sock filters uuid s))"
      by (simp only: exec_guard [OF t1] join_queue_unfold Let_def)
    then show ?thesis
      by (simp only: e five_turns js fst_conv snd_conv)
  qed
qed

lemma exec_left:
  "set ts \<subseteq> {Resume 0} \<Longrightarrow>
   exec \<lparr>core = s, tasks = [LeaveDone sock]\<rparr> (Resume 0 # ts) =
     settled (Inr (s, [Emit sock LeftQueue]))"
  by (simp only: exec_turn) (simp add: exec_idle settled_def del: exec.simps)

lemma exec_rem_failed:
  "set ts \<subseteq> {Resume 0} \<Longrightarrow>
   exec \<lparr>core = s, tasks = [LeaveRemFailed sock fk]\<rparr> (Resume 0 # Resume 0 # ts) =
     settled (Inr (remove_memory fk sock s, [Emit sock LeftQueue]))"
  by (simp only: exec_turn) (simp add: exec_left settled_def del: exec.simps)

lemma exec_leave:
  assumes "connected s sock"
  shows "exec \<lparr>core = s, tasks = []\<rparr> (Deliver (OnLeaveQueue sock) # replicate 5 (Resume 0)) =
         settled (Inr (leave_queue sock s))"
proof -
  have d: "exec \<lparr>core = s, tasks = []\<rparr> (Deliver (OnLeaveQueue sock) # ts) =
      exec \<lparr>core = fst (leave_start sock s),
            tasks = (case snd (leave_start sock s) of None \<Rightarrow> [] | Some t \<Rightarrow> [t])\<rparr> ts" for ts
    using assms by (simp split: prod.splits sum.splits)
  show ?thesis
    by (simp only: d five_turns)
       (simp add: leave_start_def leave_queue_def removeFromQueue_def exec_idle exec_left
          exec_rem_failed Let_def del: exec.simps
          split: option.splits prod.splits bool.splits)
qed

lemma exec_other:
  assumes "\<And>sock filters uuid. e \<noteq> OnJoinQueue sock filters uuid"
      and "\<And>sock. e \<noteq> OnLeaveQueue sock"
  shows "exec \<lparr>core = s, tasks = []\<rparr> (Deliver e # replicate 5 (Resume 0)) = settled (handle e s)"
proof -
  have st: "step (Deliver e) \<lparr>core = s, tasks = []\<rparr> = settled (handle e s)"
    using assms by (cases e) (auto simp: settled_def split: sum.splits option.splits prod.splits)
  show ?thesis
    by (cases "handle e s")
       (simp_all only: exec.simps st, simp_all add: settled_def exec_idle split: prod.splits)
qed

lemma exec_event:
  "exec \<lparr>core = s, tasks = []\<rparr> (Deliver e # replicate 5 (Resume 0)) = settled (handle e s)"
proof (cases e)
  case (OnJoinQueue sock filters uuid)
  show ?thesis
  proof (cases "connected s sock")
    case True
    then show ?thesis by (simp only: OnJoinQueue exec_join handle.simps if_True)
  next
    case False
    then show ?thesis by (simp add: OnJoinQueue settled_def exec_idle)
  qed
next
  case (OnLeaveQueue sock)
  show ?thesis
  proof (cases "connected s sock")
    case True
    then show ?thesis by (simp only: OnLeaveQueue exec_leave handle.simps if_True)
  next
    case False
    then show ?thesis by (simp add: OnLeaveQueue settled_def exec_idle)
  qed
qed (simp_all only: exec_other event.distinct not_False_eq_True)

lemma exec_append:
  "exec p (ts @ us) =
     (case exec p ts of
        Inl err \<Rightarrow> Inl err
      | Inr (p1, outs1) \<Rightarrow>
          (case exec p1 us of
             Inl err \<Rightarrow> Inl err
           | Inr (p2, outs2) \<Rightarrow> Inr (p2, outs1 @ outs2)))"
  by (induction ts arbitrary: p) (auto split: sum.splits prod.splits)

lemma run_is_a_schedule:
  "exec \<lparr>core = s, tasks = []\<rparr> (back_to_back es) = settled (run s es)"
proof (induction es arbitrary: s)
  case Nil
  show ?case by (simp add: back_to_back_def settled_def)
next
  case (Cons e es)
  have b: "back_to_back (e # es) = (Deliver e # replicate 5 (Resume 0)) @ back_to_back es"
    by (simp add: back_to_back_def)
  show ?case
    by (simp only: b exec_append exec_event)
       (auto simp: settled_def Cons split: sum.splits prod.splits)
qed

subsection \<open>Occupancy is never gained\<close>

text \<open>
  No tick that is \<open>allowed\<close> takes the occupancy of an id above one: a delivery or a
  turn moves an id from a list to a suspended handler, from a handler to a list or to a
  session, or drops it. The count is taken over both stores, the sessions and the
  suspended handlers together.
\<close>

lemma occ_update:
  "occ (AList.update k v al) x + count_list (list_at al k) x = occ al x + count_list v x"
  by (induction al) (auto simp: occ_def list_at_def)

lemma count_list_tl: "count_list (tl xs) x \<le> count_list xs x"
  by (cases xs) auto

lemma count_list_filter_le: "count_list (filter P xs) x \<le> count_list xs x"
  by (induction xs) auto

lemma occ_swept: "occ (map (\<lambda>(key, arr). (key, filter P arr)) al) x \<le> occ al x"
  by (induction al) (auto simp: occ_def add_mono count_list_filter_le)

lemma occ_delete: "occ (AList.delete k al) x \<le> occ al x"
  by (induction al) (auto simp: occ_def)

lemma occ_update_le:
  "count_list v x \<le> count_list (list_at al k) x \<Longrightarrow> occ (AList.update k v al) x \<le> occ al x"
  using occ_update [of k v al x] by simp

lemma stored_sockets: "stored (s\<lparr>sockets := m\<rparr>) x = stored s x"
  by (simp add: stored_def redis_count_def queue_count_def session_count_def)

lemma stored_set_filterKey: "stored (set_filterKey a b s) x = stored s x"
  by (simp add: set_filterKey_def stored_sockets)

lemma stored_set_sessionId: "stored (set_sessionId a b s) x = stored s x"
  by (simp add: set_sessionId_def stored_sockets)

lemma stored_redis_call: "stored (snd (redis_call s)) x = stored s x"
  by (simp add: redis_call_def stored_def redis_count_def queue_count_def session_count_def
      split: list.splits)

lemma stored_memory_update:
  "stored (s\<lparr>inMemoryQueues := AList.update k v (inMemoryQueues s)\<rparr>) x +
     count_list (list_at (inMemoryQueues s) k) x = stored s x + count_list v x"
  using occ_update [of k v "inMemoryQueues s" x]
  by (simp add: stored_def redis_count_def queue_count_def session_count_def)

lemma stored_redis_update:
  "stored (s\<lparr>redisLists := AList.update k v (redisLists s)\<rparr>) x +
     count_list (list_at (redisLists s) k) x = stored s x + count_list v x"
  using occ_update [of k v "redisLists s" x]
  by (simp add: stored_def redis_count_def queue_count_def session_count_def)

lemma stored_session_update:
  "stored (s\<lparr>activeSessions := AList.update k v (activeSessions s)\<rparr>) x \<le>
     stored s x + (if involves x v then 1 else 0)"
  using ssum_update [of x k v "activeSessions s"]
  by (simp add: stored_def redis_count_def queue_count_def session_count_def)

lemma stored_pop_memory:
  "stored (snd (pop_memory fk s)) x + count_list (list_at (inMemoryQueues s) fk) x =
     stored s x + count_list (tl (list_at (inMemoryQueues s) fk)) x"
  using stored_memory_update [where s = s and k = fk and v = "tl (list_at (inMemoryQueues s) fk)" and x = x]
  by (simp add: pop_memory_def Let_def)

lemma stored_push_memory:
  "stored (push_memory fk y s) x = stored s x + (if x = y then 1 else 0)"
  using stored_memory_update [where s = s and k = fk and v = "list_at (inMemoryQueues s) fk @ [y]" and x = x]
  by (simp add: push_memory_def)

lemma stored_remove_memory: "stored (remove_memory fk y s) x \<le> stored s x"
  using stored_memory_update [where s = s and k = fk and x = x
      and v = "filter (\<lambda>z. z \<noteq> y) (list_at (inMemoryQueues s) fk)"]
    count_list_filter_le [of "\<lambda>z. z \<noteq> y" "list_at (inMemoryQueues s) fk" x]
  by (simp add: remove_memory_def)

lemma pop_memory_held:
  "stored (snd (pop_memory fk s)) x +
     (if usable_peer sock (fst (pop_memory fk s)) \<and> fst (pop_memory fk s) = Some x then 1 else 0)
   \<le> stored s x"
proof (cases "list_at (inMemoryQueues s) fk")
  case Nil
  with stored_pop_memory [of fk s x] show ?thesis
    by (simp add: pop_memory_result usable_peer_def)
next
  case (Cons h rest)
  with stored_pop_memory [of fk s x] show ?thesis
    by (auto simp: pop_memory_result usable_peer_def split: if_splits)
qed


lemma redis_call_cases:
  obtains s1 where "redis_call s = (True, s1)" "stored s1 x = stored s x"
  | s1 where "redis_call s = (False, s1)" "stored s1 x = stored s x"
      "redisLists s1 = redisLists s"
proof -
  have "stored (snd (redis_call s)) x = stored s x" by (rule stored_redis_call)
  moreover have "redisLists (snd (redis_call s)) = redisLists s"
    by (simp add: redis_call_def split: list.splits)
  ultimately show ?thesis
    using that by (cases "redis_call s") auto
qed

lemma join_start_occupancy:
  "stored (fst (join_start sock filters uuid s)) x + held (snd (join_start sock filters uuid s)) x
     \<le> stored s x + (if x = sock then 1 else 0)"
proof -
  let ?fk = "makeFilterKey filters"
  let ?s1 = "set_filterKey sock ?fk s"
  have s1: "stored ?s1 x = stored s x" by (rule stored_set_filterKey)
  show ?thesis
  proof (cases "redisClient ?s1")
    case False
    have "join_start sock filters uuid s =
        (snd (pop_memory ?fk ?s1), JoinGuard sock ?fk uuid (fst (pop_memory ?fk ?s1)))"
      using False by (simp add: join_start_def Let_def split: prod.splits)
    with pop_memory_held [of ?fk ?s1 x sock] s1 show ?thesis by simp
  next
    case True
    show ?thesis
    proof (cases rule: redis_call_cases [of ?s1 x])
      case (1 s2)
      with True have "join_start sock filters uuid s = (s2, JoinPopFailed sock ?fk uuid)"
        by (simp add: join_start_def Let_def)
      with 1 s1 show ?thesis by simp
    next
      case (2 s2)
      show ?thesis
      proof (cases "list_at (redisLists s2) (waiting_key ?fk)")
        case Nil
        with True 2 have "join_start sock filters uuid s = (s2, JoinGuard sock ?fk uuid None)"
          by (simp add: join_start_def Let_def)
        with 2 s1 show ?thesis by (simp add: usable_peer_def)
      next
        case (Cons h rest)
        let ?s3 = "s2\<lparr>redisLists := AList.update (waiting_key ?fk) rest (redisLists s2)\<rparr>"
        from True 2(1) Cons have r: "join_start sock filters uuid s = (?s3, JoinGuard sock ?fk uuid (Some h))"
          by (simp add: join_start_def Let_def)
        have "stored ?s3 x + count_list (h # rest) x = stored s2 x + count_list rest x"
          using stored_redis_update [where s = s2 and k = "waiting_key ?fk" and v = rest and x = x] Cons
          by simp
        with 2(2) s1 have "stored ?s3 x + held (JoinGuard sock ?fk uuid (Some h)) x
            \<le> stored s x + (if x = sock then 1 else 0)"
          by (auto simp: usable_peer_def split: if_splits)
        then show ?thesis by (simp only: r fst_conv snd_conv)
      qed
    qed
  qed
qed

lemma resume_occupancy:
  assumes "case t of JoinExpire sock fk \<Rightarrow> \<not> fst (redis_call s) | _ \<Rightarrow> True"
  shows "stored (fst (resume t s)) x + held_next (fst (snd (resume t s))) x \<le> stored s x + held t x"
proof (cases t)
  case (JoinPopFailed sock fk uuid)
  then have "resume t s = (snd (pop_memory fk s), Some (JoinGuard sock fk uuid (fst (pop_memory fk s))), [])"
    by (simp split: prod.splits)
  with pop_memory_held [of fk s x sock] JoinPopFailed show ?thesis
    by (simp add: held_next_def)
next
  case (JoinGuard sock fk uuid peer)
  show ?thesis
  proof (cases "usable_peer sock peer")
    case True
    then obtain p where p: "peer = Some p" "p \<noteq> sock" by (auto simp: usable_peer_iff)
    let ?sid = "''sess_'' @ uuid"
    let ?s3 = "s\<lparr>activeSessions := AList.update ?sid \<lparr>sess_a = sock, sess_b = p\<rparr> (activeSessions s)\<rparr>"
    have r: "resume t s = (set_sessionId p ?sid (set_sessionId sock ?sid ?s3), None,
        [Emit sock (Matched ?sid p), Emit p (Matched ?sid sock)])"
      using JoinGuard True p by (simp add: Let_def)
    have i: "involves x \<lparr>sess_a = sock, sess_b = p\<rparr> = (x = sock \<or> x = p)"
      by (auto simp: involves_def)
    have le: "stored ?s3 x \<le> stored s x + (if x = sock \<or> x = p then 1 else 0)"
      using stored_session_update [where s = s and k = ?sid and v = "\<lparr>sess_a = sock, sess_b = p\<rparr>" and x = x]
      by (simp only: i)
    have f: "stored (fst (resume t s)) x = stored ?s3 x" "held_next (fst (snd (resume t s))) x = 0"
      by (simp_all add: r held_next_def stored_set_sessionId)
    have h: "held t x = (if x = sock then 1 else 0) + (if x = p then 1 else 0)"
      using JoinGuard True p by auto
    from le p(2) show ?thesis by (simp only: f h) (auto split: if_splits)
  next
    case False
    have h: "held t x = (if x = sock then 1 else 0)"
      using JoinGuard False by simp
    show ?thesis
    proof (cases "redisClient s")
      case mem: False
      with False JoinGuard have r: "resume t s = (push_memory fk sock s, Some (JoinQueued sock), [])"
        by simp
      have "stored (push_memory fk sock s) x + held_next (Some (JoinQueued sock)) x \<le> stored s x + held t x"
        by (simp add: h held_next_def stored_push_memory)
      then show ?thesis by (simp only: r fst_conv snd_conv)
    next
      case True
      show ?thesis
      proof (cases rule: redis_call_cases [of s x])
        case (1 s1)
        with True False JoinGuard have r: "resume t s = (s1, Some (JoinPushFailed sock fk), [])"
          by simp
        have "stored s1 x + held_next (Some (JoinPushFailed sock fk)) x \<le> stored s x + held t x"
          using 1(2) by (simp add: h held_next_def)
        then show ?thesis by (simp only: r fst_conv snd_conv)
      next
        case (2 s1)
        let ?k = "waiting_key fk"
        let ?s2 = "s1\<lparr>redisLists := AList.update ?k (list_at (redisLists s1) ?k @ [sock]) (redisLists s1)\<rparr>"
        from True False JoinGuard 2(1) have r: "resume t s = (?s2, Some (JoinExpire sock fk), [])"
          by (simp add: Let_def)
        have "stored ?s2 x = stored s1 x + (if x = sock then 1 else 0)"
          using stored_redis_update [where s = s1 and k = ?k and x = x
              and v = "list_at (redisLists s1) ?k @ [sock]"]
          by simp
        then have "stored ?s2 x + held_next (Some (JoinExpire sock fk)) x \<le> stored s x + held t x"
          using 2(2) by (simp add: h held_next_def)
        then show ?thesis by (simp only: r fst_conv snd_conv)
      qed
    qed
  qed
next
  case (JoinExpire sock fk)
  with assms have n: "\<not> fst (redis_call s)" by simp
  show ?thesis
  proof (cases rule: redis_call_cases [of s x])
    case (1 s1)
    with n show ?thesis by simp
  next
    case (2 s1)
    with JoinExpire show ?thesis by (simp add: held_next_def)
  qed
next
  case (JoinPushFailed sock fk)
  then show ?thesis by (simp add: held_next_def stored_push_memory)
next
  case (JoinQueued sock)
  then show ?thesis by (simp add: held_next_def)
next
  case (LeaveRemFailed sock fk)
  then show ?thesis by (simp add: held_next_def stored_remove_memory)
next
  case (LeaveDone sock)
  then show ?thesis by (simp add: held_next_def)
qed

lemma leave_start_occupancy:
  "stored (fst (leave_start sock s)) x + held_next (snd (leave_start sock s)) x \<le> stored s x"
proof (cases "map_of (sockets s) sock")
  case None
  then show ?thesis by (simp add: leave_start_def held_next_def)
next
  case (Some d)
  show ?thesis
  proof (cases "filterKey d")
    case None
    with Some show ?thesis by (simp add: leave_start_def held_next_def)
  next
    case fk: (Some fk)
    show ?thesis
    proof (cases "fk = []")
      case True
      with Some fk show ?thesis by (simp add: leave_start_def held_next_def)
    next
      case ne: False
      show ?thesis
      proof (cases "redisClient s")
        case False
        with Some fk ne have "leave_start sock s = (remove_memory fk sock s, Some (LeaveDone sock))"
          by (simp add: leave_start_def)
        then show ?thesis by (simp add: held_next_def stored_remove_memory)
      next
        case True
        show ?thesis
        proof (cases rule: redis_call_cases [of s x])
          case (1 s1)
          with True Some fk ne have "leave_start sock s = (s1, Some (LeaveRemFailed sock fk))"
            by (simp add: leave_start_def)
          with 1 show ?thesis by (simp add: held_next_def)
        next
          case (2 s1)
          let ?k = "waiting_key fk"
          let ?s2 = "s1\<lparr>redisLists := AList.update ?k (filter (\<lambda>y. y \<noteq> sock) (list_at (redisLists s1) ?k)) (redisLists s1)\<rparr>"
          from True Some fk ne 2(1) have r: "leave_start sock s = (?s2, Some (LeaveDone sock))"
            by (simp add: leave_start_def Let_def)
          have "stored ?s2 x \<le> stored s1 x"
            using stored_redis_update [where s = s1 and k = ?k and x = x
                and v = "filter (\<lambda>y. y \<noteq> sock) (list_at (redisLists s1) ?k)"]
              count_list_filter_le [of "\<lambda>y. y \<noteq> sock" "list_at (redisLists s1) ?k" x]
            by simp
          with 2(2) have "stored ?s2 x + held_next (Some (LeaveDone sock)) x \<le> stored s x"
            by (simp add: held_next_def)
          then show ?thesis by (simp only: r fst_conv snd_conv)
        qed
      qed
    qed
  qed
qed


lemma held_count_append: "held_count (ts @ us) x = held_count ts x + held_count us x"
  by (simp add: held_count_def)

lemma held_count_single: "held_count [t] x = held t x"
  by (simp add: held_count_def)

lemma held_count_next: "held_count (case next of None \<Rightarrow> [] | Some t \<Rightarrow> [t]) x = held_next next x"
  by (cases "next") (simp_all add: held_count_def held_next_def)

lemma held_count_replace:
  assumes "i < length ts"
  shows "held_count (replace_task i next ts) x + held (ts ! i) x = held_count ts x + held_next next x"
proof -
  have "ts = take i ts @ ts ! i # drop (Suc i) ts"
    using assms by (rule id_take_nth_drop)
  then have "held_count ts x = held_count (take i ts) x + held (ts ! i) x + held_count (drop (Suc i) ts) x"
    by (metis held_count_append held_count_def list.simps(9) sum_list.Cons add.assoc)
  then show ?thesis
    by (simp add: replace_task_def held_count_append held_count_next)
qed

lemma length_filter_filter_le: "length (filter P (filter Q xs)) \<le> length (filter P xs)"
  by (induction xs) auto

lemma stored_socket_disconnect: "stored (fst (socket_disconnect t s)) x \<le> stored s x"
proof -
  have "queue_count (fst (socket_disconnect t s)) x \<le> queue_count s x"
    by (simp only: queue_count_def socket_disconnect_def disconnect_fields)
       (simp add: occ_swept)
  moreover have "session_count (fst (socket_disconnect t s)) x \<le> session_count s x"
    unfolding session_count_def sessions_socket_disconnect by (rule length_filter_filter_le)
  moreover have "redis_count (fst (socket_disconnect t s)) x = redis_count s x"
    by (simp add: redis_count_def socket_disconnect_def disconnect_fields)
  ultimately show ?thesis by (simp add: stored_def)
qed

lemma stored_bump: "stored (bump t s) x = stored s x"
  by (simp add: stored_def redis_count_def queue_count_def session_count_def bump_def)

lemma stored_report: "stored (fst (report sock sid reason s)) x \<le> stored s x"
proof (cases "find_session s sid")
  case None
  then show ?thesis by (simp add: report_none)
next
  case (Some p)
  let ?t = "other_of p sock"
  show ?thesis
  proof (cases "3 \<le> score s ?t \<and> connected s ?t")
    case True
    then have "fst (report sock sid reason s) = fst (socket_disconnect ?t (bump ?t s))"
      by (simp add: report_found [OF Some])
    with stored_socket_disconnect [of ?t "bump ?t s" x] show ?thesis
      by (simp only: stored_bump)
  next
    case False
    then have "fst (report sock sid reason s) = bump ?t s"
      by (auto simp: report_found [OF Some])
    then show ?thesis by (simp only: stored_bump le_refl)
  qed
qed

lemma stored_expired: "stored (s\<lparr>redisLists := AList.delete k (redisLists s)\<rparr>) x \<le> stored s x"
  using occ_delete [of k "redisLists s" x]
  by (simp add: stored_def redis_count_def queue_count_def session_count_def)

lemma stored_handle:
  assumes "handle e s = Inr (s', outs)"
    and "case e of OnJoinQueue sock filters uuid \<Rightarrow> False | OnLeaveQueue sock \<Rightarrow> False | _ \<Rightarrow> True"
  shows "stored s' x \<le> stored s x"
  using handle_state [OF assms(1)] assms(2)
  by (cases e) (auto simp: stored_sockets stored_report stored_socket_disconnect stored_expired)

lemma step_occupancy:
  assumes a: "allowed p t" and le: "occupancy p x \<le> 1" and st: "step t p = Inr (p', outs)"
  shows "occupancy p' x \<le> 1"
proof (cases t)
  case (Resume i)
  show ?thesis
  proof (cases "i < length (tasks p)")
    case False
    with Resume st le show ?thesis by simp
  next
    case True
    let ?r = "resume (tasks p ! i) (core p)"
    from True Resume st have p': "p' = \<lparr>core = fst ?r, tasks = replace_task i (fst (snd ?r)) (tasks p)\<rparr>"
      by (simp split: prod.splits)
    from a Resume True
    have ok: "case tasks p ! i of JoinExpire sock fk \<Rightarrow> \<not> fst (redis_call (core p)) | _ \<Rightarrow> True"
      by simp
    from resume_occupancy [OF ok, of x] held_count_replace [OF True, of "fst (snd ?r)" x] le
    show ?thesis by (simp add: p' occupancy_def)
  qed
next
  case (Deliver e)
  show ?thesis
  proof (cases e)
    case (OnJoinQueue sock filters uuid)
    show ?thesis
    proof (cases "connected (core p) sock")
      case False
      with OnJoinQueue Deliver st le show ?thesis by simp
    next
      case True
      let ?j = "join_start sock filters uuid (core p)"
      from True OnJoinQueue Deliver st have p': "p' = \<lparr>core = fst ?j, tasks = tasks p @ [snd ?j]\<rparr>"
        by (simp split: prod.splits)
      from a True OnJoinQueue Deliver have z: "occupancy p sock = 0" by simp
      from join_start_occupancy [of sock filters uuid "core p" x] z le
      show ?thesis
        by (cases "x = sock") (simp_all add: p' occupancy_def held_count_append held_count_single)
    qed
  next
    case (OnLeaveQueue sock)
    show ?thesis
    proof (cases "connected (core p) sock")
      case False
      with OnLeaveQueue Deliver st le show ?thesis by simp
    next
      case True
      let ?l = "leave_start sock (core p)"
      from True OnLeaveQueue Deliver st
      have p': "p' = \<lparr>core = fst ?l, tasks = tasks p @ (case snd ?l of None \<Rightarrow> [] | Some t \<Rightarrow> [t])\<rparr>"
        by (simp split: prod.splits)
      from leave_start_occupancy [of sock "core p" x] le
      show ?thesis by (simp add: p' occupancy_def held_count_append held_count_next)
    qed
  next
    case (OnConnection sock)
    with Deliver st obtain s1 where h: "handle e (core p) = Inr (s1, outs)" and p': "p' = \<lparr>core = s1, tasks = tasks p\<rparr>"
      by (auto split: sum.splits)
    from stored_handle [OF h, of x] OnConnection le show ?thesis by (simp add: p' occupancy_def)
  next
    case (OnSignal sock arg)
    with Deliver st obtain s1 where h: "handle e (core p) = Inr (s1, outs)" and p': "p' = \<lparr>core = s1, tasks = tasks p\<rparr>"
      by (auto split: sum.splits)
    from stored_handle [OF h, of x] OnSignal le show ?thesis by (simp add: p' occupancy_def)
  next
    case (OnRelayMsg sock arg)
    with Deliver st obtain s1 where h: "handle e (core p) = Inr (s1, outs)" and p': "p' = \<lparr>core = s1, tasks = tasks p\<rparr>"
      by (auto split: sum.splits)
    from stored_handle [OF h, of x] OnRelayMsg le show ?thesis by (simp add: p' occupancy_def)
  next
    case (OnReport sock arg)
    with Deliver st obtain s1 where h: "handle e (core p) = Inr (s1, outs)" and p': "p' = \<lparr>core = s1, tasks = tasks p\<rparr>"
      by (auto split: sum.splits)
    from stored_handle [OF h, of x] OnReport le show ?thesis by (simp add: p' occupancy_def)
  next
    case (OnDisconnect sock)
    with Deliver st obtain s1 where h: "handle e (core p) = Inr (s1, outs)" and p': "p' = \<lparr>core = s1, tasks = tasks p\<rparr>"
      by (auto split: sum.splits)
    from stored_handle [OF h, of x] OnDisconnect le show ?thesis by (simp add: p' occupancy_def)
  next
    case (RedisExpired k)
    with Deliver st obtain s1 where h: "handle e (core p) = Inr (s1, outs)" and p': "p' = \<lparr>core = s1, tasks = tasks p\<rparr>"
      by (auto split: sum.splits)
    from stored_handle [OF h, of x] RedisExpired le show ?thesis by (simp add: p' occupancy_def)
  qed
qed

lemma exec_occupancy:
  "well_paced p ts \<Longrightarrow> occupancy p x \<le> 1 \<Longrightarrow> exec p ts = Inr (p', outs) \<Longrightarrow> occupancy p' x \<le> 1"
proof (induction ts arbitrary: p outs)
  case Nil
  then show ?case by simp
next
  case (Cons t ts)
  from Cons.prems(3) obtain p1 o1 o2 where st: "step t p = Inr (p1, o1)" and r: "exec p1 ts = Inr (p', o2)"
    by (auto split: sum.splits prod.splits)
  from Cons.prems(1) st have a: "allowed p t" and rest: "well_paced p1 ts" by simp_all
  from step_occupancy [OF a Cons.prems(2) st] have "occupancy p1 x \<le> 1" .
  from Cons.IH [OF rest this r] show ?case .
qed

subsection \<open>One queue or one session\<close>

lemma requeued_state_reached:
  "run (init_server False []) (matched_events @ [OnJoinQueue ''X'' None ''u3'']) =
     Inr (requeued_state,
          [Emit ''X'' Queued, Emit ''Y'' (Matched ''sess_u2'' ''X''),
           Emit ''X'' (Matched ''sess_u2'' ''Y''), Emit ''X'' Queued])"
  by (simp add: matched_events_def requeued_state_def matched_state_def run_defs)

lemma paced_exec:
  "exec (boot True [True]) paced_ticks =
     Inr (\<lparr>core = paced_state, tasks = []\<rparr>,
          [Emit ''X'' Queued, Emit ''Y'' Queued, Emit ''Z'' (Matched ''sess_u3'' ''Y''),
           Emit ''Y'' (Matched ''sess_u3'' ''Z'')])"
  by (simp add: paced_ticks_def paced_state_def exec_defs run_defs)

lemma paced_well: "well_paced (boot True [True]) paced_ticks"
  by (simp add: paced_ticks_def exec_defs run_defs count_defs)

text \<open>
  C1, as amended. Take any schedule of events and handler turns, with or without Redis
  and whichever of \<^verbatim>\<open>lPop\<close>, \<^verbatim>\<open>rPush\<close> and \<^verbatim>\<open>lRem\<close> throw, in which
  (a) every \<open>join_queue\<close> is delivered for a socket that is at that moment in no
  waiting list (Redis or in-memory), in no session, and neither the requester nor the
  popped candidate of a suspended \<open>join_queue\<close> handler, and (b) no \<^verbatim>\<open>expire\<close>
  throws. Then an id that filled at most one place at the start occurs at most once over
  all waiting lists of both stores, is in at most one session, and is in no waiting list
  while it is in a session. Every prefix of such a schedule is such a schedule, so this
  holds at any time.
\<close>

theorem exclusive_when_joining_idle:
  assumes "occupancy p0 x \<le> 1" and "well_paced p0 ts" and "exec p0 ts = Inr (p, outs)"
  shows "redis_count (core p) x + queue_count (core p) x \<le> 1 \<and>
         session_count (core p) x \<le> 1 \<and>
         (redis_count (core p) x + queue_count (core p) x = 0 \<or> session_count (core p) x = 0)"
  using exec_occupancy [OF assms(2) assms(1) assms(3)]
  by (auto simp: occupancy_def stored_def)

theorem exclusive_when_joining_idle_witness:
  "occupancy (boot True [True]) ''Y'' \<le> 1 \<and>
   well_paced (boot True [True]) paced_ticks \<and>
   exec (boot True [True]) paced_ticks =
     Inr (\<lparr>core = paced_state, tasks = []\<rparr>,
          [Emit ''X'' Queued, Emit ''Y'' Queued, Emit ''Z'' (Matched ''sess_u3'' ''Y''),
           Emit ''Y'' (Matched ''sess_u3'' ''Z'')]) \<and>
   redis_count paced_state ''X'' + queue_count paced_state ''X'' = 1 \<and>
   session_count paced_state ''X'' = 0 \<and>
   redis_count paced_state ''Y'' + queue_count paced_state ''Y'' = 0 \<and>
   session_count paced_state ''Y'' = 1"
proof -
  have o: "occupancy (boot True [True]) ''X'' \<le> 1" "occupancy (boot True [True]) ''Y'' \<le> 1"
    by (simp_all add: exec_defs count_defs init_server_def)
  have c: "redis_count paced_state ''X'' + queue_count paced_state ''X'' \<noteq> 0"
    "session_count paced_state ''Y'' \<noteq> 0"
    by (simp_all add: paced_state_def count_defs involves_def)
  have x: "redis_count paced_state ''X'' + queue_count paced_state ''X'' \<le> 1 \<and>
      session_count paced_state ''X'' \<le> 1 \<and>
      (redis_count paced_state ''X'' + queue_count paced_state ''X'' = 0 \<or>
       session_count paced_state ''X'' = 0)"
    using exclusive_when_joining_idle [OF o(1) paced_well paced_exec] by (simp only: select_convs)
  have y: "redis_count paced_state ''Y'' + queue_count paced_state ''Y'' \<le> 1 \<and>
      session_count paced_state ''Y'' \<le> 1 \<and>
      (redis_count paced_state ''Y'' + queue_count paced_state ''Y'' = 0 \<or>
       session_count paced_state ''Y'' = 0)"
    using exclusive_when_joining_idle [OF o(2) paced_well paced_exec] by (simp only: select_convs)
  from x c(1) have x': "redis_count paced_state ''X'' + queue_count paced_state ''X'' = 1"
    "session_count paced_state ''X'' = 0" by linarith+
  from y c(2) have y': "redis_count paced_state ''Y'' + queue_count paced_state ''Y'' = 0"
    "session_count paced_state ''Y'' = 1" by linarith+
  from x' y' o(2) paced_well paced_exec show ?thesis by blast
qed

text \<open>
  C1 as stated fails, in five ways, one for each condition above:
  \<^item> a lone \<open>X\<close> that joins with no filters and then with \<^verbatim>\<open>{lang: 'en'}\<close> is in two
    queues;
  \<^item> \<open>X\<close> joining again after it was matched is in a queue and in a session;
  \<^item> in \<open>overlapping_ticks\<close> \<open>X\<close> is in no list and in no session when its second
    \<open>join_queue\<close> is delivered, yet both handlers push it, and once \<open>Y\<close> has popped
    one occurrence \<open>X\<close> is in a queue and in a session;
  \<^item> in \<open>popped_ticks\<close> \<open>Y\<close> has been popped by the suspended handler of \<open>X\<close>
    when it joins again, and ends in a Redis list and in a session;
  \<^item> when \<^verbatim>\<open>expire\<close> throws, \<open>pushWaiting\<close> pushes \<open>X\<close> in memory after it was
    pushed in Redis; \<open>Y\<close> pops the one, and \<open>X\<close> is in a queue and in a session.
\<close>

theorem queued_twice_counterexample:
  "list_at (inMemoryQueues (final (run (init_server False []) two_queues_events))) ''all'' = [''X''] \<and>
   list_at (inMemoryQueues (final (run (init_server False []) two_queues_events)))
     (makeFilterKey (Some (JObj [(''lang'', JStr ''en'')]))) = [''X''] \<and>
   queue_count (final (run (init_server False []) two_queues_events)) ''X'' = 2 \<and>
   queue_count (final (run (init_server False []) (matched_events @ [OnJoinQueue ''X'' None ''u3'']))) ''X'' = 1 \<and>
   session_count (final (run (init_server False []) (matched_events @ [OnJoinQueue ''X'' None ''u3'']))) ''X'' = 1 \<and>
   stored (outcome (exec (boot False []) (take 2 overlapping_ticks))) ''X'' = 0 \<and>
   queue_count (outcome (exec (boot False []) overlapping_ticks)) ''X'' = 1 \<and>
   session_count (outcome (exec (boot False []) overlapping_ticks)) ''X'' = 1 \<and>
   redis_count (outcome (exec (boot True []) popped_ticks)) ''Y'' = 1 \<and>
   session_count (outcome (exec (boot True []) popped_ticks)) ''Y'' = 1 \<and>
   queue_count (final (run (init_server True [False, False, True]) expire_fault_events)) ''X'' = 1 \<and>
   session_count (final (run (init_server True [False, False, True]) expire_fault_events)) ''X'' = 1"
proof -
  have a: "final (run (init_server False []) two_queues_events) =
      \<lparr>redisClient = False, redisFaults = [], redisLists = [],
       inMemoryQueues = [(''all'', [''X'']),
                         (makeFilterKey (Some (JObj [(''lang'', JStr ''en'')])), [''X''])],
       activeSessions = [], abuseScores = [],
       sockets = [(''X'', \<lparr>filterKey = Some (makeFilterKey (Some (JObj [(''lang'', JStr ''en'')]))),
                             sessionId = None\<rparr>)]\<rparr>"
    by (simp add: two_queues_events_def final_def run_defs quote_def escape_char_def)
  have b: "final (run (init_server False []) (matched_events @ [OnJoinQueue ''X'' None ''u3''])) =
      requeued_state"
    by (simp add: requeued_state_reached final_def)
  have c: "outcome (exec (boot False []) (take 2 overlapping_ticks)) =
      \<lparr>redisClient = False, redisFaults = [], redisLists = [],
       inMemoryQueues = [(''all'', [])], activeSessions = [], abuseScores = [],
       sockets = [(''X'', \<lparr>filterKey = Some ''all'', sessionId = None\<rparr>)]\<rparr>"
    by (simp add: overlapping_ticks_def exec_defs run_defs)
  have d: "outcome (exec (boot False []) overlapping_ticks) =
      \<lparr>redisClient = False, redisFaults = [], redisLists = [],
       inMemoryQueues = [(''all'', [''X''])],
       activeSessions = [(''sess_u3'', \<lparr>sess_a = ''Y'', sess_b = ''X''\<rparr>)], abuseScores = [],
       sockets = [(''X'', \<lparr>filterKey = Some ''all'', sessionId = Some ''sess_u3''\<rparr>),
                  (''Y'', \<lparr>filterKey = Some ''all'', sessionId = Some ''sess_u3''\<rparr>)]\<rparr>"
    by (simp add: overlapping_ticks_def exec_defs run_defs)
  have e: "outcome (exec (boot True []) popped_ticks) =
      \<lparr>redisClient = True, redisFaults = [], redisLists = [(''waiting:all'', [''Y''])],
       inMemoryQueues = [],
       activeSessions = [(''sess_u2'', \<lparr>sess_a = ''X'', sess_b = ''Y''\<rparr>)], abuseScores = [],
       sockets = [(''X'', \<lparr>filterKey = Some ''all'', sessionId = Some ''sess_u2''\<rparr>),
                  (''Y'', \<lparr>filterKey = Some ''all'', sessionId = Some ''sess_u2''\<rparr>)]\<rparr>"
    by (simp add: popped_ticks_def exec_defs run_defs)
  have f: "final (run (init_server True [False, False, True]) expire_fault_events) =
      \<lparr>redisClient = True, redisFaults = [], redisLists = [(''waiting:all'', [])],
       inMemoryQueues = [(''all'', [''X''])],
       activeSessions = [(''sess_u2'', \<lparr>sess_a = ''Y'', sess_b = ''X''\<rparr>)], abuseScores = [],
       sockets = [(''X'', \<lparr>filterKey = Some ''all'', sessionId = Some ''sess_u2''\<rparr>),
                  (''Y'', \<lparr>filterKey = Some ''all'', sessionId = Some ''sess_u2''\<rparr>)]\<rparr>"
    by (simp add: expire_fault_events_def final_def run_defs)
  show ?thesis
    by (simp only: a b c d e f)
       (simp add: requeued_state_def matched_state_def count_defs involves_def list_at_def
          makeFilterKey_def quote_def escape_char_def)
qed

subsection \<open>No self-match\<close>

lemma list_all_update:
  "list_all P al \<Longrightarrow> P (k, v) \<Longrightarrow> list_all P (AList.update k v al)"
  by (induction al) auto

lemma distinct_slots_join_queue:
  "distinct_slots s \<Longrightarrow> distinct_slots (fst (join_queue sock filters uuid s))"
  using join_queue_sessions [of sock filters uuid s]
  by (auto simp: distinct_slots_def list_all_update)

lemma distinct_slots_report:
  "distinct_slots s \<Longrightarrow> distinct_slots (fst (report sock sid reason s))"
  using report_sessions [of sock sid reason s]
  by (auto simp: distinct_slots_def list_all_iff)

lemma distinct_slots_socket_disconnect:
  "distinct_slots s \<Longrightarrow> distinct_slots (fst (socket_disconnect sock s))"
  by (auto simp: distinct_slots_def list_all_iff sessions_socket_disconnect)

lemma distinct_slots_fields:
  "activeSessions s' = activeSessions s \<Longrightarrow> distinct_slots s \<Longrightarrow> distinct_slots s'"
  by (simp add: distinct_slots_def)

lemma distinct_slots_handle:
  assumes "distinct_slots s" and "handle e s = Inr (s', outs)"
  shows "distinct_slots s'"
  using handle_state [OF assms(2)] assms(1)
  by (cases e)
     (auto simp: distinct_slots_join_queue distinct_slots_report distinct_slots_socket_disconnect
        leave_queue_fields elim: distinct_slots_fields [rotated])


text \<open>The same over every schedule of events and handler turns.\<close>

lemma join_start_sessions:
  "activeSessions (fst (join_start sock filters uuid s)) = activeSessions s"
  by (simp add: join_start_def Let_def set_fields pop_memory_def redis_call_def
      split: prod.splits list.splits bool.splits)

lemma leave_start_sessions: "activeSessions (fst (leave_start sock s)) = activeSessions s"
  by (simp add: leave_start_def Let_def remove_memory_def redis_call_def
      split: option.splits prod.splits list.splits bool.splits)

lemma distinct_slots_resume: "distinct_slots s \<Longrightarrow> distinct_slots (fst (resume t s))"
proof (cases t)
  case (JoinGuard sock fk uuid peer)
  assume d: "distinct_slots s"
  show ?thesis
  proof (cases "usable_peer sock peer")
    case True
    then have "the peer \<noteq> sock" by (auto simp: usable_peer_iff)
    with d True show ?thesis
      by (simp add: JoinGuard Let_def distinct_slots_def set_fields list_all_update)
  next
    case False
    with d show ?thesis
      by (simp add: JoinGuard distinct_slots_def push_memory_def redis_call_def Let_def
          split: prod.splits list.splits bool.splits)
  qed
qed (simp_all add: distinct_slots_def pop_memory_def push_memory_def remove_memory_def
       redis_call_def Let_def split: prod.splits list.splits bool.splits)

lemma distinct_slots_step:
  assumes "distinct_slots (core p)" and "step t p = Inr (p', outs)"
  shows "distinct_slots (core p')"
proof (cases t)
  case (Resume i)
  show ?thesis
  proof (cases "i < length (tasks p)")
    case True
    with assms(2) have "core p' = fst (resume (tasks p ! i) (core p))"
      by (auto simp: Resume split: prod.splits)
    with assms(1) show ?thesis by (simp add: distinct_slots_resume)
  next
    case False
    with assms show ?thesis by (simp add: Resume)
  qed
next
  case (Deliver e)
  have other: ?thesis
    if "step (Deliver e) p =
          (case handle e (core p) of
             Inl err \<Rightarrow> Inl err
           | Inr (s1, outs) \<Rightarrow> Inr (\<lparr>core = s1, tasks = tasks p\<rparr>, outs))"
  proof -
    from that assms(2) obtain s1 where "handle e (core p) = Inr (s1, outs)" "core p' = s1"
      by (auto simp: Deliver split: sum.splits)
    with assms(1) show ?thesis by (auto intro: distinct_slots_handle)
  qed
  show ?thesis
  proof (cases e)
    case (OnJoinQueue sock filters uuid)
    with assms(2) have "core p' = core p \<or> core p' = fst (join_start sock filters uuid (core p))"
      by (auto simp: Deliver split: if_splits prod.splits)
    with assms(1) show ?thesis
      by (auto simp: distinct_slots_def join_start_sessions)
  next
    case (OnLeaveQueue sock)
    with assms(2) have "core p' = core p \<or> core p' = fst (leave_start sock (core p))"
      by (auto simp: Deliver split: if_splits prod.splits)
    with assms(1) show ?thesis
      by (auto simp: distinct_slots_def leave_start_sessions)
  qed (simp_all add: other)
qed

lemma distinct_slots_exec:
  "distinct_slots (core p) \<Longrightarrow> exec p ts = Inr (p', outs) \<Longrightarrow> distinct_slots (core p')"
proof (induction ts arbitrary: p outs)
  case Nil
  then show ?case by simp
next
  case (Cons t ts)
  from Cons.prems(2) obtain p1 o1 o2 where h: "step t p = Inr (p1, o1)" and r: "exec p1 ts = Inr (p', o2)"
    by (auto split: sum.splits prod.splits)
  from distinct_slots_step [OF Cons.prems(1) h] r show ?case by (rule Cons.IH)
qed








end
